theory Spec2Isabelle
  imports Main "HOL-Library.Sublist"
begin

section \<open>Tiered conversational memory: the short-term store, the long-term store, the turn loop\<close>

text \<open>
  The development embeds \<^verbatim>\<open>chapter 5/main.go\<close>: \<^verbatim>\<open>ShortTermMemory\<close> (a Redis list of
  JSON messages and one cached summary per session), \<^verbatim>\<open>LongTermMemory\<close> (an indexer and
  a retriever) and the body of the loop of \<^verbatim>\<open>main\<close> that runs one turn per query.

  Go strings are byte sequences, and so is \<^typ>\<open>string\<close>; the Chinese literals of the
  source are written as their UTF-8 bytes. Go's \<^verbatim>\<open>int\<close> is the 64-bit signed integer:
  values are \<^typ>\<open>int\<close>, and the one place where the source computes with a value that it
  has not bounded first (\<^verbatim>\<open>len(allMessages)-stm.maxHistory*2\<close>) wraps explicitly.
\<close>

subsection \<open>Data\<close>

record Message =
  Role :: string
  Content :: string
  Time :: int

datatype meta_value = MStr string | MInt int

record Document =
  ID :: string
  DocContent :: string
  MetaData :: "string \<Rightarrow> meta_value option"

text \<open>
  What an external call reports when it fails, and the errors the program builds around
  it with \<^verbatim>\<open>fmt.Errorf("...: %w", err)\<close>, one constructor per message of the source.
\<close>

datatype cause = Unreachable | WrongType | NotAnInteger | External string

datatype error =
    MarshalFailed cause
  | PushFailed cause
  | RangeFailed cause
  | GetSummaryFailed cause
  | SaveSummaryFailed cause
  | ChainCompileFailed cause
  | SummaryInvokeFailed cause
  | ClearFailed cause
  | TouchFailed cause
  | GetAccessFailed cause
  | StoreFailed cause
  | NoIdReturned
  | RetrieveFailed cause

text \<open>
  A Go function that returns \<^verbatim>\<open>(value, error)\<close> returns \<open>Ok\<close> or \<open>Err\<close>; a run-time
  panic (a slice expression out of range) is the third outcome, which no
  \<^verbatim>\<open>if err != nil\<close> catches.
\<close>

datatype 'a result = Ok 'a | Err error | Panic

subsection \<open>The key-value backing store\<close>

text \<open>
  The Redis server behind \<^verbatim>\<open>redisClient\<close>: a keyspace of lists and strings, each key
  with an optional expiry deadline, the clock (Unix seconds) that decides whether a
  deadline has passed and that \<^verbatim>\<open>time.Now().Unix()\<close> reads, and a script of injected
  faults: every command consumes the head of \<open>faults\<close> and fails with
  \<open>Unreachable\<close> when it is \<open>True\<close>; an exhausted script means no more faults.
\<close>

datatype rval = RList "string list" | RStr string

record redis =
  entries :: "string \<Rightarrow> (rval \<times> int option) option"
  clock :: int
  faults :: "bool list"

definition live :: "redis \<Rightarrow> string \<Rightarrow> rval option" where
  "live r k =
     (case entries r k of
        None \<Rightarrow> None
      | Some (v, None) \<Rightarrow> Some v
      | Some (v, Some deadline) \<Rightarrow> if clock r < deadline then Some v else None)"

definition next_fault :: "redis \<Rightarrow> bool \<times> redis" where
  "next_fault r = (case faults r of [] \<Rightarrow> (False, r) | b # bs \<Rightarrow> (b, r\<lparr>faults := bs\<rparr>))"

definition advance :: "int \<Rightarrow> redis \<Rightarrow> redis" where
  "advance d r = r\<lparr>clock := clock r + d\<rparr>"

text \<open>\<^verbatim>\<open>RPUSH\<close>: appends to the list, creating it without expiry; an existing deadline stays.\<close>

definition RPush :: "redis \<Rightarrow> string \<Rightarrow> string \<Rightarrow> (cause + unit) \<times> redis" where
  "RPush r k v =
     (case next_fault r of
        (True, r1) \<Rightarrow> (Inl Unreachable, r1)
      | (False, r1) \<Rightarrow>
          (case live r1 k of
             None \<Rightarrow> (Inr (), r1\<lparr>entries := (entries r1)(k \<mapsto> (RList [v], None))\<rparr>)
           | Some (RList xs) \<Rightarrow>
               (Inr (), r1\<lparr>entries := (entries r1)(k \<mapsto> (RList (xs @ [v]), snd (the (entries r1 k))))\<rparr>)
           | Some (RStr s) \<Rightarrow> (Inl WrongType, r1)))"

text \<open>\<^verbatim>\<open>LRANGE key 0 -1\<close>: the whole list, empty for a missing key.\<close>

definition LRange :: "redis \<Rightarrow> string \<Rightarrow> (cause + string list) \<times> redis" where
  "LRange r k =
     (case next_fault r of
        (True, r1) \<Rightarrow> (Inl Unreachable, r1)
      | (False, r1) \<Rightarrow>
          (case live r1 k of
             None \<Rightarrow> (Inr [], r1)
           | Some (RList xs) \<Rightarrow> (Inr xs, r1)
           | Some (RStr s) \<Rightarrow> (Inl WrongType, r1)))"

text \<open>\<^verbatim>\<open>GET\<close>: \<open>Inr None\<close> is the reply \<^verbatim>\<open>redis.Nil\<close>.\<close>

definition Get :: "redis \<Rightarrow> string \<Rightarrow> (cause + string option) \<times> redis" where
  "Get r k =
     (case next_fault r of
        (True, r1) \<Rightarrow> (Inl Unreachable, r1)
      | (False, r1) \<Rightarrow>
          (case live r1 k of
             None \<Rightarrow> (Inr None, r1)
           | Some (RStr s) \<Rightarrow> (Inr (Some s), r1)
           | Some (RList xs) \<Rightarrow> (Inl WrongType, r1)))"

text \<open>
  \<^verbatim>\<open>SET key value\<close> with an expiration: \<open>0\<close> stores the value without a deadline (and
  drops the one the key had), a positive one sets the deadline that far from now.
\<close>

definition Set :: "redis \<Rightarrow> string \<Rightarrow> string \<Rightarrow> int \<Rightarrow> (cause + unit) \<times> redis" where
  "Set r k v expiration =
     (case next_fault r of
        (True, r1) \<Rightarrow> (Inl Unreachable, r1)
      | (False, r1) \<Rightarrow>
          (Inr (), r1\<lparr>entries := (entries r1)
                    (k \<mapsto> (RStr v, if expiration = 0 then None else Some (clock r1 + expiration)))\<rparr>))"

text \<open>\<^verbatim>\<open>DEL k1 k2 ...\<close>: one command, all the keys or none.\<close>

definition Del :: "redis \<Rightarrow> string list \<Rightarrow> (cause + unit) \<times> redis" where
  "Del r ks =
     (case next_fault r of
        (True, r1) \<Rightarrow> (Inl Unreachable, r1)
      | (False, r1) \<Rightarrow>
          (Inr (), r1\<lparr>entries := (\<lambda>k. if k \<in> set ks then None else entries r1 k)\<rparr>))"

subsection \<open>Integers: the 64-bit wrap, decimal text\<close>

definition wrap64 :: "int \<Rightarrow> int" where
  "wrap64 x = (x + 2 ^ 63) mod 2 ^ 64 - 2 ^ 63"

text \<open>\<^verbatim>\<open>xs[lo:]\<close> and \<^verbatim>\<open>xs[:hi]\<close>: out of range is a panic, here \<open>None\<close>.\<close>

definition slice_from :: "'a list \<Rightarrow> int \<Rightarrow> 'a list option" where
  "slice_from xs lo = (if 0 \<le> lo \<and> lo \<le> int (length xs) then Some (drop (nat lo) xs) else None)"

definition slice_to :: "'a list \<Rightarrow> int \<Rightarrow> 'a list option" where
  "slice_to xs hi = (if 0 \<le> hi \<and> hi \<le> int (length xs) then Some (take (nat hi) xs) else None)"

text \<open>
  The client sends an \<^verbatim>\<open>int64\<close> as its decimal text and \<^verbatim>\<open>StringCmd.Int64\<close> reads it
  back with \<^verbatim>\<open>strconv.ParseInt(s, 10, 64)\<close>.
\<close>

fun nat_dec :: "nat \<Rightarrow> string" where
  "nat_dec n = (if n < 10 then [char_of (48 + n)] else nat_dec (n div 10) @ [char_of (48 + n mod 10)])"

declare nat_dec.simps [simp del]

definition FormatInt :: "int \<Rightarrow> string" where
  "FormatInt i = (if i < 0 then CHR ''-'' # nat_dec (nat (- i)) else nat_dec (nat i))"

definition digit_of :: "char \<Rightarrow> nat option" where
  "digit_of c = (let k = (of_char c :: nat) in if 48 \<le> k \<and> k \<le> 57 then Some (k - 48) else None)"

fun parse_digits :: "string \<Rightarrow> nat \<Rightarrow> nat option" where
  "parse_digits [] acc = Some acc"
| "parse_digits (c # cs) acc =
     (case digit_of c of None \<Rightarrow> None | Some d \<Rightarrow> parse_digits cs (acc * 10 + d))"

definition ParseInt :: "string \<Rightarrow> int option" where
  "ParseInt s =
     (case s of
        [] \<Rightarrow> None
      | c # cs \<Rightarrow>
          let neg = (c = CHR ''-'');
              ds = (if c = CHR ''-'' \<or> c = CHR ''+'' then cs else s)
          in if ds = [] then None
             else (case parse_digits ds 0 of
                     None \<Rightarrow> None
                   | Some n \<Rightarrow>
                       let v = (if neg then - int n else int n)
                       in if - (2 ^ 63) \<le> v \<and> v < 2 ^ 63 then Some v else None))"

subsection \<open>ShortTermMemory\<close>

text \<open>
  The struct holds the client and \<open>maxHistory\<close>, the window in rounds; the functions take
  \<open>maxHistory\<close> and the server state the client talks to. \<^verbatim>\<open>encoding/json\<close> is a
  parameter: \<open>marshal\<close> for \<^verbatim>\<open>json.Marshal\<close> on a \<open>Message\<close>, \<open>unmarshal\<close> for
  \<^verbatim>\<open>json.Unmarshal\<close> into one (\<open>None\<close> when it returns an error).
\<close>

definition messages_key :: "string \<Rightarrow> string" where
  "messages_key sessionID = ''session:'' @ sessionID @ '':messages''"

definition summary_key :: "string \<Rightarrow> string" where
  "summary_key sessionID = ''session:'' @ sessionID @ '':summary''"

definition access_key :: "string \<Rightarrow> string" where
  "access_key sessionID = ''session:'' @ sessionID @ '':last_access''"

definition AddMessage ::
  "(Message \<Rightarrow> cause + string) \<Rightarrow> string \<Rightarrow> string \<Rightarrow> string \<Rightarrow> redis \<Rightarrow> (error + unit) \<times> redis" where
  "AddMessage marshal sessionID role content r =
     (let msg = \<lparr>Role = role, Content = content, Time = clock r\<rparr>
      in case marshal msg of
           Inl c \<Rightarrow> (Inl (MarshalFailed c), r)
         | Inr msgJSON \<Rightarrow>
             (case RPush r (messages_key sessionID) msgJSON of
                (Inl c, r1) \<Rightarrow> (Inl (PushFailed c), r1)
              | (Inr u, r1) \<Rightarrow> (Inr (), r1)))"

text \<open>The loop of \<^verbatim>\<open>GetHistory\<close>: an entry that does not parse is skipped (\<^verbatim>\<open>continue\<close>).\<close>

fun decode_all :: "(string \<Rightarrow> Message option) \<Rightarrow> string list \<Rightarrow> Message list" where
  "decode_all unmarshal [] = []"
| "decode_all unmarshal (msgJSON # rest) =
     (case unmarshal msgJSON of
        None \<Rightarrow> decode_all unmarshal rest
      | Some msg \<Rightarrow> msg # decode_all unmarshal rest)"

definition GetHistory ::
  "(string \<Rightarrow> Message option) \<Rightarrow> int \<Rightarrow> string \<Rightarrow> redis \<Rightarrow> (Message list \<times> string) result \<times> redis" where
  "GetHistory unmarshal maxHistory sessionID r =
     (case LRange r (messages_key sessionID) of
        (Inl c, r1) \<Rightarrow> (Err (RangeFailed c), r1)
      | (Inr msgJSONs, r1) \<Rightarrow>
          (let allMessages = decode_all unmarshal msgJSONs;
               totalRounds = int (length allMessages) div 2
           in if totalRounds \<le> maxHistory then (Ok (allMessages, ''''), r1)
              else (case slice_from allMessages
                           (wrap64 (int (length allMessages) - wrap64 (maxHistory * 2))) of
                      None \<Rightarrow> (Panic, r1)
                    | Some recentMessages \<Rightarrow>
                        (case Get r1 (summary_key sessionID) of
                           (Inl c, r2) \<Rightarrow> (Err (GetSummaryFailed c), r2)
                         | (Inr None, r2) \<Rightarrow> (Ok (recentMessages, ''''), r2)
                         | (Inr (Some summary), r2) \<Rightarrow> (Ok (recentMessages, summary), r2)))))"

definition SaveSummary :: "string \<Rightarrow> string \<Rightarrow> redis \<Rightarrow> (error + unit) \<times> redis" where
  "SaveSummary sessionID summary r =
     (case Set r (summary_key sessionID) summary 0 of
        (Inl c, r1) \<Rightarrow> (Inl (SaveSummaryFailed c), r1)
      | (Inr u, r1) \<Rightarrow> (Inr (), r1))"

definition ClearHistory :: "string \<Rightarrow> redis \<Rightarrow> (error + unit) \<times> redis" where
  "ClearHistory sessionID r =
     (case Del r [messages_key sessionID, summary_key sessionID, access_key sessionID] of
        (Inl c, r1) \<Rightarrow> (Inl (ClearFailed c), r1)
      | (Inr u, r1) \<Rightarrow> (Inr (), r1))"

text \<open>\<^verbatim>\<open>30*24*time.Hour\<close> is 2592000 seconds.\<close>

definition UpdateLastAccessTime :: "string \<Rightarrow> redis \<Rightarrow> (error + unit) \<times> redis" where
  "UpdateLastAccessTime sessionID r =
     (case Set r (access_key sessionID) (FormatInt (clock r)) (30 * 24 * 3600) of
        (Inl c, r1) \<Rightarrow> (Inl (TouchFailed c), r1)
      | (Inr u, r1) \<Rightarrow> (Inr (), r1))"

definition GetLastAccessTime :: "string \<Rightarrow> redis \<Rightarrow> (error + int) \<times> redis" where
  "GetLastAccessTime sessionID r =
     (case Get r (access_key sessionID) of
        (Inr None, r1) \<Rightarrow> (Inr 0, r1)
      | (Inl c, r1) \<Rightarrow> (Inl (GetAccessFailed c), r1)
      | (Inr (Some s), r1) \<Rightarrow>
          (case ParseInt s of
             None \<Rightarrow> (Inl (GetAccessFailed NotAnInteger), r1)
           | Some val \<Rightarrow> (Inr val, r1)))"

subsection \<open>LongTermMemory\<close>

text \<open>
  The indexer and the retriever are external components, taken as parameters: what
  \<^verbatim>\<open>indexer.Store\<close> answers for a batch of documents (the identifiers, or a failure) and
  what \<^verbatim>\<open>retriever.Retrieve\<close> answers for a query. \<^verbatim>\<open>Store\<close> returns the Go pair
  \<^verbatim>\<open>(string, error)\<close> as it is, \<open>None\<close> being the \<^verbatim>\<open>nil\<close> error. The document is
  built from the content and the metadata alone: its \<open>ID\<close> stays the zero value.
\<close>

definition Store ::
  "(Document list \<Rightarrow> cause + string list) \<Rightarrow> string \<Rightarrow> (string \<Rightarrow> meta_value option)
     \<Rightarrow> string \<times> error option" where
  "Store indexer content metadata =
     (let doc = \<lparr>ID = '''', DocContent = content, MetaData = metadata\<rparr>
      in case indexer [doc] of
           Inl c \<Rightarrow> ('''', Some (StoreFailed c))
         | Inr ids \<Rightarrow> (case ids of [] \<Rightarrow> ('''', Some NoIdReturned) | first # others \<Rightarrow> (first, None)))"

definition Retrieve ::
  "(string \<Rightarrow> cause + Document list) \<Rightarrow> string \<Rightarrow> error + Document list" where
  "Retrieve retriever query =
     (case retriever query of Inl c \<Rightarrow> Inl (RetrieveFailed c) | Inr docs \<Rightarrow> Inr docs)"

subsection \<open>Text helpers of the standard library and the literals of the source\<close>

fun Contains :: "string \<Rightarrow> string \<Rightarrow> bool" where
  "Contains [] substr = (substr = [])"
| "Contains (c # s) substr = (prefix substr (c # s) \<or> Contains s substr)"

definition TrimPrefix :: "string \<Rightarrow> string \<Rightarrow> string" where
  "TrimPrefix s p = (if prefix p s then drop (length p) s else s)"

definition cue_remember :: string where
  \<comment> \<open>the two characters "remember", UTF-8\<close>
  "cue_remember = [CHR 0xE8, CHR 0xAE, CHR 0xB0, CHR 0xE4, CHR 0xBD, CHR 0x8F]"

definition cue_my :: string where
  \<comment> \<open>the two characters "my", UTF-8\<close>
  "cue_my = [CHR 0xE6, CHR 0x88, CHR 0x91, CHR 0xE7, CHR 0x9A, CHR 0x84]"

definition cue_please_remember :: string where
  \<comment> \<open>the three characters "please remember", UTF-8\<close>
  "cue_please_remember =
     [CHR 0xE8, CHR 0xAF, CHR 0xB7, CHR 0xE8, CHR 0xAE, CHR 0xB0, CHR 0xE4, CHR 0xBD,
      CHR 0x8F]"

definition fact_prefix :: string where
  \<comment> \<open>"please remember" followed by the full-width colon U+FF1A\<close>
  "fact_prefix = cue_please_remember @ [CHR 0xEF, CHR 0xBC, CHR 0x9A]"

definition summary_header :: string where
  \<comment> \<open>the bracketed heading "conversation summary" and a line feed\<close>
  "summary_header =
     [CHR 0xE3, CHR 0x80, CHR 0x90, CHR 0xE5, CHR 0xAF, CHR 0xB9, CHR 0xE8, CHR 0xAF,
      CHR 0x9D, CHR 0xE6, CHR 0x80, CHR 0xBB, CHR 0xE7, CHR 0xBB, CHR 0x93, CHR 0xE3,
      CHR 0x80, CHR 0x91, CHR 0x0A]"

definition recent_header :: string where
  \<comment> \<open>the bracketed heading "recent conversation" and a line feed\<close>
  "recent_header =
     [CHR 0xE3, CHR 0x80, CHR 0x90, CHR 0xE6, CHR 0x9C, CHR 0x80, CHR 0xE8, CHR 0xBF,
      CHR 0x91, CHR 0xE5, CHR 0xAF, CHR 0xB9, CHR 0xE8, CHR 0xAF, CHR 0x9D, CHR 0xE3,
      CHR 0x80, CHR 0x91, CHR 0x0A]"

definition retrieved_header :: string where
  \<comment> \<open>"retrieved related information", a full-width colon and a line feed\<close>
  "retrieved_header =
     [CHR 0xE6, CHR 0xA3, CHR 0x80, CHR 0xE7, CHR 0xB4, CHR 0xA2, CHR 0xE5, CHR 0x88,
      CHR 0xB0, CHR 0xE7, CHR 0x9A, CHR 0x84, CHR 0xE7, CHR 0x9B, CHR 0xB8, CHR 0xE5,
      CHR 0x85, CHR 0xB3, CHR 0xE4, CHR 0xBF, CHR 0xA1, CHR 0xE6, CHR 0x81, CHR 0xAF,
      CHR 0xEF, CHR 0xBC, CHR 0x9A, CHR 0x0A]"

definition summarize_request :: string where
  \<comment> \<open>"please summarise the following conversation history", a colon and two line feeds\<close>
  "summarize_request =
     [CHR 0xE8, CHR 0xAF, CHR 0xB7, CHR 0xE6, CHR 0x80, CHR 0xBB, CHR 0xE7, CHR 0xBB,
      CHR 0x93, CHR 0xE4, CHR 0xBB, CHR 0xA5, CHR 0xE4, CHR 0xB8, CHR 0x8B, CHR 0xE5,
      CHR 0xAF, CHR 0xB9, CHR 0xE8, CHR 0xAF, CHR 0x9D, CHR 0xE5, CHR 0x8E, CHR 0x86,
      CHR 0xE5, CHR 0x8F, CHR 0xB2, CHR 0xEF, CHR 0xBC, CHR 0x9A, CHR 0x0A, CHR 0x0A]"

definition message_line :: "Message \<Rightarrow> string" where
  \<comment> \<open>\<^verbatim>\<open>fmt.Sprintf("%s: %s\n", msg.Role, msg.Content)\<close>\<close>
  "message_line msg = Role msg @ '': '' @ Content msg @ [CHR 0x0A]"

definition short_term_history :: "string \<Rightarrow> Message list \<Rightarrow> string" where
  "short_term_history summary recentMessages =
     (if summary \<noteq> '''' then summary_header @ summary @ [CHR 0x0A, CHR 0x0A] else '''')
     @ recent_header @ concat (map message_line recentMessages)"

fun numbered_lines :: "int \<Rightarrow> Document list \<Rightarrow> string" where
  \<comment> \<open>\<^verbatim>\<open>fmt.Sprintf("%d. %s\n", j+1, doc.Content)\<close> for the documents from index \<open>j\<close> on\<close>
  "numbered_lines j [] = ''''"
| "numbered_lines j (doc # docs) =
     FormatInt (j + 1) @ ''. '' @ DocContent doc @ [CHR 0x0A] @ numbered_lines (j + 1) docs"

subsection \<open>The turn loop of main\<close>

text \<open>
  The external components of one run: the JSON codec, the compiled conversation chain
  (\<open>chat_invoke\<close>, given the three template variables, answers with the reply's content
  or fails), the summary chain (\<open>summary_compile\<close> is the failure of
  \<^verbatim>\<open>Compile\<close>, if any; \<open>summary_invoke\<close> answers for the user message of the summary
  prompt), the indexer and the retriever.
\<close>

record ports =
  marshal :: "Message \<Rightarrow> cause + string"
  unmarshal :: "string \<Rightarrow> Message option"
  chat_invoke :: "string \<Rightarrow> string \<Rightarrow> string \<Rightarrow> cause + string"
  summary_compile :: "cause option"
  summary_invoke :: "string \<Rightarrow> cause + string"
  indexer :: "Document list \<Rightarrow> cause + string list"
  retriever :: "string \<Rightarrow> cause + Document list"

text \<open>
  What a turn does towards the outside, in order: the calls it makes to the external
  components with their arguments, and the outcomes it prints.
\<close>

datatype event =
    HistoryFailed error
  | Retrieving string
  | Invoked string string string
  | GenerateFailed cause
  | Replied string
  | SaveFailed string error
  | Summarizing "Message list"
  | SummaryFailed error
  | SummaryDone
  | Storing string "string \<Rightarrow> meta_value option"
  | StoreError error
  | Stored string

definition GenerateSummary ::
  "ports \<Rightarrow> string \<Rightarrow> Message list \<Rightarrow> redis \<Rightarrow> (error + string) \<times> redis" where
  "GenerateSummary P sessionID oldMessages r =
     (let oldText = concat (map message_line oldMessages)
      in case summary_compile P of
           Some c \<Rightarrow> (Inl (ChainCompileFailed c), r)
         | None \<Rightarrow>
             (case summary_invoke P (summarize_request @ oldText) of
                Inl c \<Rightarrow> (Inl (SummaryInvokeFailed c), r)
              | Inr content \<Rightarrow>
                  (case SaveSummary sessionID content r of
                     (Inl e, r1) \<Rightarrow> (Inl e, r1)
                   | (Inr u, r1) \<Rightarrow> (Inr content, r1))))"

text \<open>Step 2 of the loop body: the text of the long-term memory and the call made for it.\<close>

definition retrieve_step :: "ports \<Rightarrow> string \<Rightarrow> event list \<times> string" where
  "retrieve_step P query =
     (if Contains query cue_remember \<or> Contains query cue_my
      then (case Retrieve (retriever P) query of
              Inr docs \<Rightarrow>
                ([Retrieving query],
                 if length docs > 0 then retrieved_header @ numbered_lines 0 docs else '''')
            | Inl e \<Rightarrow> ([Retrieving query], ''''))
      else ([], ''''))"

text \<open>Step 4: both messages are pushed; a failure is printed and the turn goes on.\<close>

definition persist_step ::
  "ports \<Rightarrow> string \<Rightarrow> string \<Rightarrow> string \<Rightarrow> redis \<Rightarrow> event list \<times> redis" where
  "persist_step P sessionID query response r =
     (case AddMessage (marshal P) sessionID ''user'' query r of
        (res1, r1) \<Rightarrow>
          (case AddMessage (marshal P) sessionID ''assistant'' response r1 of
             (res2, r2) \<Rightarrow>
               ((case res1 of Inl e \<Rightarrow> [SaveFailed ''user'' e] | Inr u \<Rightarrow> [])
                @ (case res2 of Inl e \<Rightarrow> [SaveFailed ''assistant'' e] | Inr u \<Rightarrow> []), r2)))"

text \<open>
  Step 5: the history is read again, its two other results dropped
  (\<^verbatim>\<open>allMessages, _, _ := ...\<close>: on an error \<open>allMessages\<close> is \<^verbatim>\<open>nil\<close>), and the summary is
  generated when the rounds of what was read exceed the window. \<open>None\<close> is a panic.
\<close>

definition summarize_step ::
  "ports \<Rightarrow> int \<Rightarrow> string \<Rightarrow> redis \<Rightarrow> (event list \<times> redis) option" where
  "summarize_step P maxHistory sessionID r =
     (case GetHistory (unmarshal P) maxHistory sessionID r of
        (res, r1) \<Rightarrow>
          (case (case res of
                   Panic \<Rightarrow> None
                 | Err e \<Rightarrow> Some []
                 | Ok (messages, summary) \<Rightarrow> Some messages) of
             None \<Rightarrow> None
           | Some allMessages \<Rightarrow>
               (let totalRounds = int (length allMessages) div 2
                in if totalRounds > maxHistory
                   then (case slice_to allMessages
                                (wrap64 (int (length allMessages) - wrap64 (maxHistory * 2))) of
                           None \<Rightarrow> None
                         | Some oldMessages \<Rightarrow>
                             (case GenerateSummary P sessionID oldMessages r1 of
                                (Inl e, r2) \<Rightarrow> Some ([Summarizing oldMessages, SummaryFailed e], r2)
                              | (Inr s, r2) \<Rightarrow> Some ([Summarizing oldMessages, SummaryDone], r2)))
                   else Some ([], r1))))"

text \<open>Step 6: the fact is stored when the query contains the cue.\<close>

definition turn_metadata :: "string \<Rightarrow> int \<Rightarrow> string \<Rightarrow> meta_value option" where
  "turn_metadata sessionID now =
     [''session_id'' \<mapsto> MStr sessionID, ''type'' \<mapsto> MStr ''user_fact'', ''timestamp'' \<mapsto> MInt now]"

definition store_step :: "ports \<Rightarrow> string \<Rightarrow> string \<Rightarrow> int \<Rightarrow> event list" where
  "store_step P sessionID query now =
     (if Contains query cue_please_remember
      then (let content = TrimPrefix query fact_prefix;
                metadata = turn_metadata sessionID now
            in case Store (indexer P) content metadata of
                 (ident, Some e) \<Rightarrow> [Storing content metadata, StoreError e]
               | (ident, None) \<Rightarrow> [Storing content metadata, Stored ident])
      else [])"

text \<open>
  The body of \<^verbatim>\<open>for i, query := range testQueries\<close>. A failed read of the short-term
  memory and a failed generation end the turn (\<^verbatim>\<open>continue\<close>); \<open>None\<close> is a panic, which
  ends the program.
\<close>

definition turn ::
  "ports \<Rightarrow> int \<Rightarrow> string \<Rightarrow> string \<Rightarrow> redis \<Rightarrow> (event list \<times> redis) option" where
  "turn P maxHistory sessionID query r =
     (case GetHistory (unmarshal P) maxHistory sessionID r of
        (Panic, r1) \<Rightarrow> None
      | (Err e, r1) \<Rightarrow> Some ([HistoryFailed e], r1)
      | (Ok (recentMessages, summary), r1) \<Rightarrow>
          (case retrieve_step P query of
             (ev2, longTermInfo) \<Rightarrow>
               (let shortTermHistory = short_term_history summary recentMessages;
                    ev3 = ev2 @ [Invoked shortTermHistory longTermInfo query]
                in case chat_invoke P shortTermHistory longTermInfo query of
                     Inl c \<Rightarrow> Some (ev3 @ [GenerateFailed c], r1)
                   | Inr response \<Rightarrow>
                       (case persist_step P sessionID query response r1 of
                          (ev4, r2) \<Rightarrow>
                            (case summarize_step P maxHistory sessionID r2 of
                               None \<Rightarrow> None
                             | Some (ev5, r3) \<Rightarrow>
                                 Some (ev3 @ [Replied response] @ ev4 @ ev5
                                       @ store_step P sessionID query (clock r3), r3))))))"

fun run_turns ::
  "ports \<Rightarrow> int \<Rightarrow> string \<Rightarrow> string list \<Rightarrow> redis \<Rightarrow> (event list \<times> redis) option" where
  "run_turns P maxHistory sessionID [] r = Some ([], r)"
| "run_turns P maxHistory sessionID (query # rest) r =
     (case turn P maxHistory sessionID query r of
        None \<Rightarrow> None
      | Some (ev, r1) \<Rightarrow>
          (case run_turns P maxHistory sessionID rest r1 of
             None \<Rightarrow> None
           | Some (evs, r2) \<Rightarrow> Some (ev @ evs, r2)))"

subsection \<open>Notions the properties are stated with\<close>

text \<open>
  What a session holds in the store at the current time: its raw log, its cached summary;
  whether its two keys hold values of the kinds the program writes there; whether the
  next command meets a fault, and whether the next \<open>n\<close> commands all reach the server; the
  last \<open>n\<close> elements of a list.
\<close>

definition log_of :: "redis \<Rightarrow> string \<Rightarrow> string list" where
  "log_of r sessionID =
     (case live r (messages_key sessionID) of Some (RList xs) \<Rightarrow> xs | Some (RStr s) \<Rightarrow> [] | None \<Rightarrow> [])"

definition summary_of :: "redis \<Rightarrow> string \<Rightarrow> string option" where
  "summary_of r sessionID =
     (case live r (summary_key sessionID) of Some (RStr s) \<Rightarrow> Some s | Some (RList xs) \<Rightarrow> None | None \<Rightarrow> None)"

definition well_typed :: "redis \<Rightarrow> string \<Rightarrow> bool" where
  "well_typed r sessionID =
     ((case live r (messages_key sessionID) of Some (RStr s) \<Rightarrow> False | Some (RList xs) \<Rightarrow> True | None \<Rightarrow> True)
      \<and> (case live r (summary_key sessionID) of Some (RList xs) \<Rightarrow> False | Some (RStr s) \<Rightarrow> True | None \<Rightarrow> True))"

definition faulty :: "redis \<Rightarrow> bool" where
  "faulty r = (faults r \<noteq> [] \<and> hd (faults r))"

definition quiet :: "nat \<Rightarrow> redis \<Rightarrow> bool" where
  "quiet n r = (True \<notin> set (take n (faults r)))"

definition last_n :: "nat \<Rightarrow> 'a list \<Rightarrow> 'a list" where
  "last_n n xs = drop (length xs - n) xs"

text \<open>
  Events of a turn: the two that end it early (the \<^verbatim>\<open>continue\<close> statements of the loop
  body), the call of \<^verbatim>\<open>longTermMemory.Store\<close>, the call of \<^verbatim>\<open>GenerateSummary\<close>.
\<close>

fun ends_turn :: "event \<Rightarrow> bool" where
  "ends_turn (HistoryFailed e) = True"
| "ends_turn (GenerateFailed c) = True"
| "ends_turn other = False"

fun is_store_call :: "event \<Rightarrow> bool" where
  "is_store_call (Storing content metadata) = True"
| "is_store_call other = False"

fun is_store_event :: "event \<Rightarrow> bool" where
  "is_store_event (Storing content metadata) = True"
| "is_store_event (StoreError e) = True"
| "is_store_event (Stored ident) = True"
| "is_store_event other = False"

fun is_summarizing :: "event \<Rightarrow> bool" where
  "is_summarizing (Summarizing oldMessages) = True"
| "is_summarizing other = False"

text \<open>
  The operations of the short-term store as data, and the passing of time, to speak of
  every sequence of them: \<open>run_ops\<close> applies a sequence to a store and keeps the store
  each operation leaves. \<open>no_deadline\<close> says that neither the message log nor the summary
  of a session carries an expiry deadline.
\<close>

datatype stm_op =
    OpAddMessage string string string
  | OpGetHistory string
  | OpSaveSummary string string
  | OpClearHistory string
  | OpUpdateLastAccessTime string
  | OpGetLastAccessTime string
  | OpElapse nat

fun apply_op ::
  "(Message \<Rightarrow> cause + string) \<Rightarrow> (string \<Rightarrow> Message option) \<Rightarrow> int \<Rightarrow> stm_op \<Rightarrow> redis \<Rightarrow> redis" where
  "apply_op m u W (OpAddMessage sessionID role content) r = snd (AddMessage m sessionID role content r)"
| "apply_op m u W (OpGetHistory sessionID) r = snd (GetHistory u W sessionID r)"
| "apply_op m u W (OpSaveSummary sessionID summary) r = snd (SaveSummary sessionID summary r)"
| "apply_op m u W (OpClearHistory sessionID) r = snd (ClearHistory sessionID r)"
| "apply_op m u W (OpUpdateLastAccessTime sessionID) r = snd (UpdateLastAccessTime sessionID r)"
| "apply_op m u W (OpGetLastAccessTime sessionID) r = snd (GetLastAccessTime sessionID r)"
| "apply_op m u W (OpElapse seconds) r = advance (int seconds) r"

fun run_ops ::
  "(Message \<Rightarrow> cause + string) \<Rightarrow> (string \<Rightarrow> Message option) \<Rightarrow> int \<Rightarrow> stm_op list \<Rightarrow> redis \<Rightarrow> redis" where
  "run_ops m u W [] r = r"
| "run_ops m u W (op # ops) r = run_ops m u W ops (apply_op m u W op r)"

definition no_deadline :: "redis \<Rightarrow> string \<Rightarrow> bool" where
  "no_deadline r sessionID =
     ((case entries r (messages_key sessionID) of
         None \<Rightarrow> True | Some (v, None) \<Rightarrow> True | Some (v, Some deadline) \<Rightarrow> False)
      \<and> (case entries r (summary_key sessionID) of
           None \<Rightarrow> True | Some (v, None) \<Rightarrow> True | Some (v, Some deadline) \<Rightarrow> False))"

text \<open>
  A small codec and a set of well-behaved external components, to run the program on
  concrete inputs: a message is written as its role, a bar and its content; text
  without a bar does not parse.
\<close>

definition sample_marshal :: "Message \<Rightarrow> cause + string" where
  "sample_marshal m = Inr (Role m @ ''|'' @ Content m)"

definition sample_unmarshal :: "string \<Rightarrow> Message option" where
  "sample_unmarshal s =
     (if CHR ''|'' \<in> set s
      then Some \<lparr>Role = takeWhile (\<lambda>c. c \<noteq> CHR ''|'') s,
                 Content = tl (dropWhile (\<lambda>c. c \<noteq> CHR ''|'') s), Time = 0\<rparr>
      else None)"

definition sample_ports :: ports where
  "sample_ports =
     \<lparr>marshal = sample_marshal, unmarshal = sample_unmarshal,
      chat_invoke = (\<lambda>history memory query. Inr (''re:'' @ query)),
      summary_compile = None,
      summary_invoke = (\<lambda>text. Inr ''S''),
      indexer = (\<lambda>docs. Inr (map (\<lambda>d. ''id1'') docs)),
      retriever = (\<lambda>query. Inr [])\<rparr>"

text \<open>
  An indexer that answers with what it was handed: for each document its content, an at
  sign and the session identifier found in its metadata.
\<close>

definition echo_indexer :: "Document list \<Rightarrow> cause + string list" where
  "echo_indexer docs =
     Inr (map (\<lambda>d. DocContent d @ ''@''
                    @ (case MetaData d ''session_id'' of
                         Some (MStr s) \<Rightarrow> s | Some (MInt i) \<Rightarrow> ''?'' | None \<Rightarrow> ''?'')) docs)"

definition empty_redis :: redis where
  "empty_redis = \<lparr>entries = Map.empty, clock = 1000, faults = []\<rparr>"

definition redis_with_log :: "string \<Rightarrow> string list \<Rightarrow> redis" where
  "redis_with_log sessionID raw =
     \<lparr>entries = [messages_key sessionID \<mapsto> (RList raw, None)], clock = 1000, faults = []\<rparr>"


lemmas sample_store_simps =
  redis_with_log_def log_of_def summary_of_def live_def messages_key_def summary_key_def
  access_key_def well_typed_def quiet_def faulty_def sample_unmarshal_def last_n_def

lemmas run_simps =
  turn_def GetHistory_def LRange_def Get_def Set_def RPush_def next_fault_def live_def
  retrieve_step_def Retrieve_def persist_step_def AddMessage_def summarize_step_def
  GenerateSummary_def SaveSummary_def store_step_def Store_def slice_from_def slice_to_def wrap64_def
  short_term_history_def message_line_def TrimPrefix_def turn_metadata_def
  messages_key_def summary_key_def access_key_def
  cue_remember_def cue_my_def cue_please_remember_def fact_prefix_def
  sample_ports_def sample_marshal_def sample_unmarshal_def empty_redis_def Let_def

section \<open>Properties\<close>

subsection \<open>Auxiliary facts: integers and slices\<close>

lemma wrap64_id: "- (2 ^ 63) \<le> x \<Longrightarrow> x < 2 ^ 63 \<Longrightarrow> wrap64 x = x"
  by (simp add: wrap64_def)

lemma window_slice:
  assumes "0 \<le> W" and "int (length xs) < 2 ^ 63" and "\<not> int (length xs) div 2 \<le> W"
  shows "wrap64 (int (length xs) - wrap64 (W * 2)) = int (length xs) - 2 * W"
    and "0 \<le> int (length xs) - 2 * W" and "int (length xs) - 2 * W \<le> int (length xs)"
proof -
  from assms have b: "2 * W < int (length xs)" by linarith
  with assms have "wrap64 (W * 2) = W * 2" by (intro wrap64_id) linarith+
  moreover from b assms have "wrap64 (int (length xs) - W * 2) = int (length xs) - W * 2"
    by (intro wrap64_id) linarith+
  ultimately show "wrap64 (int (length xs) - wrap64 (W * 2)) = int (length xs) - 2 * W" by simp
  from b show "0 \<le> int (length xs) - 2 * W" by simp
  from assms show "int (length xs) - 2 * W \<le> int (length xs)" by simp
qed

lemma slice_from_window:
  assumes "0 \<le> W" and "int (length xs) < 2 ^ 63" and "\<not> int (length xs) div 2 \<le> W"
  shows "slice_from xs (wrap64 (int (length xs) - wrap64 (W * 2))) = Some (last_n (2 * nat W) xs)"
proof -
  have "nat (int (length xs) - 2 * W) = length xs - 2 * nat W" using assms(1) by linarith
  then show ?thesis using window_slice [OF assms] by (simp add: slice_from_def last_n_def)
qed

lemma slice_from_suffix: "slice_from xs lo = Some ys \<Longrightarrow> suffix ys xs"
  by (auto simp: slice_from_def suffix_drop split: if_splits)

lemma last_last_n: "0 < n \<Longrightarrow> xs \<noteq> [] \<Longrightarrow> last_n n xs \<noteq> [] \<and> last (last_n n xs) = last xs"
proof -
  assume "0 < n" and "xs \<noteq> []"
  then have "length xs - n < length xs" by (cases xs) auto
  then show ?thesis by (simp add: last_n_def)
qed

lemma length_decode_all: "length (decode_all u raw) \<le> length raw"
  by (induction raw) (auto split: option.splits)

lemma decode_all_filter:
  "decode_all u raw = map (the \<circ> u) (filter (\<lambda>j. u j \<noteq> None) raw)"
  by (induction raw) (auto split: option.splits)

lemma decode_all_filter_idem:
  "decode_all u (filter (\<lambda>j. u j \<noteq> None) raw) = decode_all u raw"
  by (induction raw) (auto split: option.splits)

subsection \<open>Auxiliary facts: keys\<close>

lemma keys_distinct [simp]:
  "messages_key s \<noteq> summary_key s" "summary_key s \<noteq> messages_key s"
  "messages_key s \<noteq> access_key s" "access_key s \<noteq> messages_key s"
  "summary_key s \<noteq> access_key s" "access_key s \<noteq> summary_key s"
  by (simp_all add: messages_key_def summary_key_def access_key_def)

subsection \<open>Auxiliary facts: the commands in closed form\<close>

lemma next_fault_eq: "next_fault r = (faulty r, r\<lparr>faults := tl (faults r)\<rparr>)"
  by (cases "faults r") (simp_all add: next_fault_def faulty_def)

lemma live_faults [simp]: "live (r\<lparr>faults := fs\<rparr>) k = live r k"
  by (simp add: live_def split: option.splits)

lemma faulty_other [simp]:
  "faulty (r\<lparr>entries := e\<rparr>) = faulty r" "faulty (r\<lparr>clock := c\<rparr>) = faulty r"
  by (simp_all add: faulty_def)

lemma well_typed_faults [simp]: "well_typed (r\<lparr>faults := fs\<rparr>) sid = well_typed r sid"
  by (simp add: well_typed_def)

lemma summary_of_faults [simp]: "summary_of (r\<lparr>faults := fs\<rparr>) sid = summary_of r sid"
  by (simp add: summary_of_def)

lemma log_of_faults [simp]: "log_of (r\<lparr>faults := fs\<rparr>) sid = log_of r sid"
  by (simp add: log_of_def)

lemma same_store:
  assumes "entries r' = entries r" and "clock r' = clock r"
  shows "live r' k = live r k" and "log_of r' sid = log_of r sid"
    and "summary_of r' sid = summary_of r sid" and "well_typed r' sid = well_typed r sid"
proof -
  show l: "live r' k = live r k" for k
    using assms by (simp add: live_def split: option.splits)
  show "log_of r' sid = log_of r sid" by (simp add: log_of_def l)
  show "summary_of r' sid = summary_of r sid" by (simp add: summary_of_def l)
  show "well_typed r' sid = well_typed r sid" by (simp add: well_typed_def l)
qed

lemma quiet_next: "quiet (Suc n) r \<Longrightarrow> \<not> faulty r"
  by (cases "faults r") (auto simp: quiet_def faulty_def)

lemma quiet_tl: "quiet (Suc n) r \<Longrightarrow> quiet n (r\<lparr>faults := tl (faults r)\<rparr>)"
  by (cases "faults r") (auto simp: quiet_def)

lemma quiet_two: "quiet 2 r \<Longrightarrow> \<not> faulty r \<and> \<not> faulty (r\<lparr>faults := tl (faults r)\<rparr>)"
  using quiet_next [of 1 r] quiet_next [of 0 "r\<lparr>faults := tl (faults r)\<rparr>"] quiet_tl [of 1 r]
  by (simp add: numeral_2_eq_2)

lemma live_absent: "entries r k = None \<Longrightarrow> live r k = None"
  by (simp add: live_def)

lemma live_update:
  "live (r\<lparr>entries := (entries r)(k \<mapsto> x)\<rparr>) k' =
     (if k' = k
      then (case x of (v, None) \<Rightarrow> Some v
                    | (v, Some deadline) \<Rightarrow> if clock r < deadline then Some v else None)
      else live r k')"
  by (simp add: live_def split: option.splits prod.splits)

lemma LRange_eq:
  "LRange r k =
     (if faulty r then Inl Unreachable
      else (case live r k of None \<Rightarrow> Inr [] | Some (RList xs) \<Rightarrow> Inr xs | Some (RStr s) \<Rightarrow> Inl WrongType),
      r\<lparr>faults := tl (faults r)\<rparr>)"
  by (simp add: LRange_def next_fault_eq split: option.split rval.split)

lemma Get_eq:
  "Get r k =
     (if faulty r then Inl Unreachable
      else (case live r k of None \<Rightarrow> Inr None | Some (RStr s) \<Rightarrow> Inr (Some s) | Some (RList xs) \<Rightarrow> Inl WrongType),
      r\<lparr>faults := tl (faults r)\<rparr>)"
  by (simp add: Get_def next_fault_eq split: option.split rval.split)

lemma Set_eq:
  "Set r k v expiration =
     (if faulty r then (Inl Unreachable, r\<lparr>faults := tl (faults r)\<rparr>)
      else (Inr (), r\<lparr>faults := tl (faults r),
                      entries := (entries r)
                        (k \<mapsto> (RStr v, if expiration = 0 then None else Some (clock r + expiration)))\<rparr>))"
  by (simp add: Set_def next_fault_eq)

lemma Del_eq:
  "Del r ks =
     (if faulty r then (Inl Unreachable, r\<lparr>faults := tl (faults r)\<rparr>)
      else (Inr (), r\<lparr>faults := tl (faults r),
                      entries := (\<lambda>k. if k \<in> set ks then None else entries r k)\<rparr>))"
  by (simp add: Del_def next_fault_eq cong: if_cong)

subsection \<open>Auxiliary facts: the context read in closed form\<close>

lemma GetHistory_fst:
  "fst (GetHistory u W sid r) =
     (if faulty r then Err (RangeFailed Unreachable)
      else case live r (messages_key sid) of
             Some (RStr s) \<Rightarrow> Err (RangeFailed WrongType)
           | other \<Rightarrow>
               (let all = decode_all u (log_of r sid)
                in if int (length all) div 2 \<le> W then Ok (all, '''')
                   else (case slice_from all (wrap64 (int (length all) - wrap64 (W * 2))) of
                           None \<Rightarrow> Panic
                         | Some recent \<Rightarrow>
                             if faulty (r\<lparr>faults := tl (faults r)\<rparr>)
                             then Err (GetSummaryFailed Unreachable)
                             else (case live r (summary_key sid) of
                                     Some (RList xs) \<Rightarrow> Err (GetSummaryFailed WrongType)
                                   | Some (RStr s) \<Rightarrow> Ok (recent, s)
                                   | None \<Rightarrow> Ok (recent, '''')))))"
  by (simp add: GetHistory_def LRange_eq Get_eq log_of_def Let_def split: option.split rval.split)

lemma GetHistory_fst_cong:
  assumes f1: "faulty r' = faulty r"
    and f2: "faulty (r'\<lparr>faults := tl (faults r')\<rparr>) = faulty (r\<lparr>faults := tl (faults r)\<rparr>)"
    and m: "live r' (messages_key sid) = live r (messages_key sid)
            \<or> (\<exists>xs ys. live r' (messages_key sid) = Some (RList xs)
                        \<and> live r (messages_key sid) = Some (RList ys))"
    and d: "decode_all u (log_of r' sid) = decode_all u (log_of r sid)"
    and s: "live r' (summary_key sid) = live r (summary_key sid)"
  shows "fst (GetHistory u W sid r') = fst (GetHistory u W sid r)"
  unfolding GetHistory_fst f1 f2 d s using m by auto

lemma GetHistory_snd:
  "entries (snd (GetHistory u W sid r)) = entries r \<and> clock (snd (GetHistory u W sid r)) = clock r"
  by (simp add: GetHistory_def LRange_eq Get_eq Let_def split: option.split rval.split sum.split)

lemma GetHistory_quiet:
  assumes "quiet 2 r" and "0 \<le> W" and "well_typed r sid" and "int (length (log_of r sid)) < 2 ^ 63"
  shows "fst (GetHistory u W sid r) =
     (let all = decode_all u (log_of r sid)
      in if int (length all) div 2 \<le> W then Ok (all, '''')
         else Ok (last_n (2 * nat W) all, case summary_of r sid of None \<Rightarrow> '''' | Some s \<Rightarrow> s))"
proof -
  have len: "int (length (decode_all u (log_of r sid))) < 2 ^ 63"
    using length_decode_all [of u "log_of r sid"] assms(4) by linarith
  have m: "live r (messages_key sid) = None \<or> (\<exists>xs. live r (messages_key sid) = Some (RList xs))"
    using assms(3) by (auto simp: well_typed_def split: option.splits rval.splits)
  have s: "live r (summary_key sid) = None \<or> (\<exists>t. live r (summary_key sid) = Some (RStr t))"
    using assms(3) by (auto simp: well_typed_def split: option.splits rval.splits)
  show ?thesis
    using slice_from_window [OF assms(2) len] quiet_two [OF assms(1)] m s
    by (auto simp: GetHistory_fst Let_def summary_of_def)
qed

lemma GetHistory_suffix:
  assumes "fst (GetHistory u W sid r) = Ok (ms, s)"
  shows "suffix ms (decode_all u (log_of r sid))"
  using assms slice_from_suffix [of "decode_all u (log_of r sid)" _ ms]
  by (auto simp: GetHistory_fst Let_def split: if_splits option.splits rval.splits)

lemma GetLastAccessTime_fst:
  "fst (GetLastAccessTime sid r) =
     (if faulty r then Inl (GetAccessFailed Unreachable)
      else case live r (access_key sid) of
             None \<Rightarrow> Inr 0
           | Some (RList xs) \<Rightarrow> Inl (GetAccessFailed WrongType)
           | Some (RStr s) \<Rightarrow>
               (case ParseInt s of None \<Rightarrow> Inl (GetAccessFailed NotAnInteger) | Some val \<Rightarrow> Inr val))"
  by (simp add: GetLastAccessTime_def Get_eq split: option.split rval.split)

lemma ClearHistory_eq:
  "ClearHistory sid r =
     (if faulty r then (Inl (ClearFailed Unreachable), r\<lparr>faults := tl (faults r)\<rparr>)
      else (Inr (), r\<lparr>faults := tl (faults r),
                      entries := (\<lambda>k. if k \<in> {messages_key sid, summary_key sid, access_key sid}
                                       then None else entries r k)\<rparr>))"
  by (simp add: ClearHistory_def Del_eq)

lemma log_of_absent: "entries r (messages_key sid) = None \<Longrightarrow> log_of r sid = []"
  by (simp add: log_of_def live_def)

lemma read_absent:
  assumes "entries r (messages_key sid) = None" and "entries r (summary_key sid) = None"
  shows "fst (GetHistory u W sid r) = fst (GetHistory u W sid (r\<lparr>entries := Map.empty\<rparr>))"
  using assms
  by (intro GetHistory_fst_cong) (simp_all add: live_absent log_of_absent faulty_def)

lemma access_absent:
  assumes "entries r (access_key sid) = None"
  shows "fst (GetLastAccessTime sid r) = fst (GetLastAccessTime sid (r\<lparr>entries := Map.empty\<rparr>))"
  using assms by (simp add: GetLastAccessTime_fst live_absent)

subsection \<open>The context read\<close>

text \<open>
  Claim C2 (window invariant). Take a window \<open>W \<ge> 0\<close> and a session whose log decodes to
  \<open>N\<close> complete rounds (\<open>2 * N\<close> messages) with \<open>N > W\<close>, in a store that the read reaches
  (no fault on its two commands, the session's keys holding a list and a string, the list
  within the length a Go slice can have). Then \<open>GetHistory\<close> returns the last \<open>2 * W\<close>
  messages of the log, together with the cached summary if there is one, and that is
  exactly \<open>2 * W\<close> messages: \<open>W\<close> rounds, never more and never fewer.
\<close>

theorem window_invariant:
  assumes "0 \<le> W" and "quiet 2 r" and "well_typed r sid"
    and "int (length (log_of r sid)) < 2 ^ 63"
    and "length (decode_all u (log_of r sid)) = 2 * N" and "W < int N"
  shows "fst (GetHistory u W sid r) =
           Ok (last_n (2 * nat W) (decode_all u (log_of r sid)),
               case summary_of r sid of None \<Rightarrow> '''' | Some s \<Rightarrow> s)
         \<and> length (last_n (2 * nat W) (decode_all u (log_of r sid))) = 2 * nat W"
proof -
  have over: "\<not> int (length (decode_all u (log_of r sid))) div 2 \<le> W"
    using assms(5,6) by simp
  have "2 * nat W \<le> 2 * N" using assms(1,6) by linarith
  then have "length (last_n (2 * nat W) (decode_all u (log_of r sid))) = 2 * nat W"
    using assms(5) by (simp add: last_n_def)
  then show ?thesis
    using over by (simp add: GetHistory_quiet [OF assms(2,1,3,4)] Let_def)
qed

theorem window_invariant_witness:
  "fst (GetHistory sample_unmarshal 1 ''s''
          (redis_with_log ''s'' [''user|a'', ''assistant|b'', ''user|c'', ''assistant|d''])) =
     Ok ([\<lparr>Role = ''user'', Content = ''c'', Time = 0\<rparr>,
          \<lparr>Role = ''assistant'', Content = ''d'', Time = 0\<rparr>], '''')"
  using window_invariant [of 1 "redis_with_log ''s'' [''user|a'', ''assistant|b'', ''user|c'', ''assistant|d'']"
      "''s''" sample_unmarshal 2]
  by (simp add: sample_store_simps)

text \<open>
  Claim C3 (no-summary gap). In the same setting, when the log holds more than \<open>W\<close> rounds
  and the session has no cached summary, \<open>GetHistory\<close> returns the last \<open>2 * W\<close> messages
  with the empty summary and no error, and it leaves the store as it was: the keyspace and
  the clock are unchanged, and there is still no summary afterwards. \<open>GetHistory\<close> takes the
  JSON decoder and the store only; it has no generation component to call.
\<close>

theorem no_summary_gap:
  assumes "0 \<le> W" and "quiet 2 r" and "well_typed r sid"
    and "int (length (log_of r sid)) < 2 ^ 63"
    and "W < int (length (decode_all u (log_of r sid))) div 2"
    and "summary_of r sid = None"
  shows "fst (GetHistory u W sid r) = Ok (last_n (2 * nat W) (decode_all u (log_of r sid)), '''')
         \<and> entries (snd (GetHistory u W sid r)) = entries r
         \<and> clock (snd (GetHistory u W sid r)) = clock r
         \<and> summary_of (snd (GetHistory u W sid r)) sid = None"
proof -
  have same: "entries (snd (GetHistory u W sid r)) = entries r"
    "clock (snd (GetHistory u W sid r)) = clock r"
    using GetHistory_snd [of u W sid r] by simp_all
  show ?thesis
    using assms(5,6) same same_store(3) [OF same]
    by (simp add: GetHistory_quiet [OF assms(2,1,3,4)] Let_def)
qed

theorem no_summary_gap_witness:
  "fst (GetHistory sample_unmarshal 1 ''s''
          (redis_with_log ''s'' [''user|a'', ''assistant|b'', ''user|c'', ''assistant|d''])) =
     Ok ([\<lparr>Role = ''user'', Content = ''c'', Time = 0\<rparr>,
          \<lparr>Role = ''assistant'', Content = ''d'', Time = 0\<rparr>], '''')
   \<and> summary_of (snd (GetHistory sample_unmarshal 1 ''s''
          (redis_with_log ''s'' [''user|a'', ''assistant|b'', ''user|c'', ''assistant|d'']))) ''s'' = None"
  using no_summary_gap [of 1 "redis_with_log ''s'' [''user|a'', ''assistant|b'', ''user|c'', ''assistant|d'']"
      "''s''" sample_unmarshal]
  by (simp add: sample_store_simps)

text \<open>
  Claim C5 (odd-length tolerance), as stated, fails for the window \<open>W = 0\<close>: a log of three
  messages has one complete round, more than the window, so the read keeps
  \<^verbatim>\<open>allMessages[3-0:]\<close>, the empty slice, and the dangling third message is not returned.
\<close>

theorem odd_length_drops_dangling_at_window_zero:
  "decode_all sample_unmarshal (log_of (redis_with_log ''s'' [''user|a'', ''assistant|b'', ''user|c'']) ''s'') =
     [\<lparr>Role = ''user'', Content = ''a'', Time = 0\<rparr>,
      \<lparr>Role = ''assistant'', Content = ''b'', Time = 0\<rparr>,
      \<lparr>Role = ''user'', Content = ''c'', Time = 0\<rparr>]
   \<and> fst (GetHistory sample_unmarshal 0 ''s''
            (redis_with_log ''s'' [''user|a'', ''assistant|b'', ''user|c''])) = Ok ([], '''')"
  by (simp add: GetHistory_def LRange_def Get_def next_fault_def slice_from_def wrap64_def
        sample_store_simps)

text \<open>
  Claim C5, amended: for a window \<open>W \<ge> 1\<close> and a session whose log decodes to an odd
  number of messages, in a store that the read reaches, \<open>GetHistory\<close> neither fails nor
  panics: it returns the whole log when its complete rounds are within the window and the
  last \<open>2 * W\<close> messages otherwise (the slice is in bounds), and in both cases the dangling
  message is the last of the messages returned.
\<close>

theorem odd_length_tolerance:
  assumes "1 \<le> W" and "quiet 2 r" and "well_typed r sid"
    and "int (length (log_of r sid)) < 2 ^ 63"
    and "odd (length (decode_all u (log_of r sid)))"
  shows "\<exists>recent summary.
           fst (GetHistory u W sid r) = Ok (recent, summary)
           \<and> recent = (if int (length (decode_all u (log_of r sid))) div 2 \<le> W
                       then decode_all u (log_of r sid)
                       else last_n (2 * nat W) (decode_all u (log_of r sid)))
           \<and> recent \<noteq> [] \<and> last recent = last (decode_all u (log_of r sid))"
proof -
  let ?all = "decode_all u (log_of r sid)"
  have ne: "?all \<noteq> []" using assms(5) by (cases ?all) auto
  have w: "0 \<le> W" "0 < 2 * nat W" using assms(1) by auto
  show ?thesis
    using ne last_last_n [OF w(2) ne]
    by (simp add: GetHistory_quiet [OF assms(2) w(1) assms(3,4)] Let_def)
qed

theorem odd_length_tolerance_witness:
  "\<exists>recent summary.
     fst (GetHistory sample_unmarshal 1 ''s''
            (redis_with_log ''s'' [''user|a'', ''assistant|b'', ''user|c'', ''assistant|d'', ''user|e''])) =
       Ok (recent, summary)
     \<and> recent = [\<lparr>Role = ''assistant'', Content = ''d'', Time = 0\<rparr>,
                  \<lparr>Role = ''user'', Content = ''e'', Time = 0\<rparr>]"
  using odd_length_tolerance [of 1
      "redis_with_log ''s'' [''user|a'', ''assistant|b'', ''user|c'', ''assistant|d'', ''user|e'']"
      "''s''" sample_unmarshal]
  by (simp add: sample_store_simps)


text \<open>
  Claim C4 (clear). \<open>ClearHistory\<close> is one \<^verbatim>\<open>DEL\<close> of the session's three keys (the
  message log, the summary, the last-access time): it consumes one command and either
  fails and leaves the keyspace as it was, or removes the three keys together. After a
  clear that succeeded, the context read and the last-access read answer exactly as they
  do on a keyspace that holds nothing at all, and when the read reaches the server (and
  the window is not negative) that answer is the empty message sequence with the empty
  summary, without error, and the last-access time \<open>0\<close>.
\<close>

theorem clear_then_read:
  "(let r' = snd (ClearHistory sid r)
    in faults r' = tl (faults r) \<and> clock r' = clock r
       \<and> (case fst (ClearHistory sid r) of
             Inl e \<Rightarrow> entries r' = entries r
           | Inr u \<Rightarrow>
               entries r' =
                 (\<lambda>k. if k \<in> {messages_key sid, summary_key sid, access_key sid} then None
                      else entries r k)
               \<and> fst (GetHistory unm W sid r') = fst (GetHistory unm W sid (r'\<lparr>entries := Map.empty\<rparr>))
               \<and> fst (GetLastAccessTime sid r') = fst (GetLastAccessTime sid (r'\<lparr>entries := Map.empty\<rparr>)))
       \<and> (quiet 1 r \<longrightarrow> fst (ClearHistory sid r) = Inr ())
       \<and> (quiet 2 r \<and> 0 \<le> W \<longrightarrow>
            fst (GetHistory unm W sid r') = Ok ([], '''') \<and> fst (GetLastAccessTime sid r') = Inr 0))"
proof (cases "faulty r")
  case True
  then have nq: "\<not> quiet 1 r" "\<not> quiet 2 r"
    using quiet_next [of 0 r] quiet_next [of 1 r] by (auto simp: numeral_2_eq_2)
  show ?thesis using True nq by (simp add: ClearHistory_eq Let_def)
next
  case False
  let ?r = "snd (ClearHistory sid r)"
  have gone: "entries ?r (messages_key sid) = None" "entries ?r (summary_key sid) = None"
    "entries ?r (access_key sid) = None"
    using False by (simp_all add: ClearHistory_eq)
  have q: "quiet 2 r \<Longrightarrow> \<not> faulty ?r"
    using False quiet_two [of r] by (simp add: ClearHistory_eq faulty_def)
  have "quiet 2 r \<and> 0 \<le> W \<longrightarrow>
          fst (GetHistory unm W sid ?r) = Ok ([], '''') \<and> fst (GetLastAccessTime sid ?r) = Inr 0"
    using q gone by (simp add: GetHistory_fst GetLastAccessTime_fst live_absent log_of_absent)
  then show ?thesis
    using False read_absent [OF gone(1,2), of unm W] access_absent [OF gone(3)]
    by (simp add: ClearHistory_eq Let_def)
qed

theorem clear_then_read_witness:
  "fst (ClearHistory ''s'' (redis_with_log ''s'' [''user|a'', ''assistant|b''])) = Inr ()
   \<and> fst (GetHistory sample_unmarshal 1 ''s''
            (snd (ClearHistory ''s'' (redis_with_log ''s'' [''user|a'', ''assistant|b''])))) = Ok ([], '''')
   \<and> fst (GetLastAccessTime ''s''
            (snd (ClearHistory ''s'' (redis_with_log ''s'' [''user|a'', ''assistant|b''])))) = Inr 0"
  using clear_then_read [of "''s''" "redis_with_log ''s'' [''user|a'', ''assistant|b'']" sample_unmarshal 1]
  by (simp add: Let_def quiet_def redis_with_log_def split: sum.splits)

text \<open>
  Claim C9 (malformed entries are dropped). Whatever the session's list holds, the
  messages the read works with are the decodings of the entries that parse, in their
  order, and the read answers exactly as it does on the list with the other entries
  removed: its window, its round count and its result are those of the well-formed
  entries, and an entry that does not parse produces no error. On a store that the read
  reaches it returns a trailing part of the well-formed messages.
\<close>

theorem malformed_entries_dropped:
  assumes "entries r (messages_key sid) = Some (RList raw, d)"
  shows "decode_all u raw = map (the \<circ> u) (filter (\<lambda>j. u j \<noteq> None) raw)
         \<and> fst (GetHistory u W sid r) =
             fst (GetHistory u W sid
                    (r\<lparr>entries := (entries r)(messages_key sid \<mapsto> (RList (filter (\<lambda>j. u j \<noteq> None) raw), d))\<rparr>))
         \<and> (0 \<le> W \<and> quiet 2 r \<and> well_typed r sid \<and> int (length raw) < 2 ^ 63 \<longrightarrow>
              (\<exists>ms s. fst (GetHistory u W sid r) = Ok (ms, s)
                       \<and> suffix ms (map (the \<circ> u) (filter (\<lambda>j. u j \<noteq> None) raw))))"
proof -
  let ?ok = "filter (\<lambda>j. u j \<noteq> None) raw"
  let ?r2 = "r\<lparr>entries := (entries r)(messages_key sid \<mapsto> (RList ?ok, d))\<rparr>"
  have s: "live ?r2 (summary_key sid) = live r (summary_key sid)"
    by (simp add: live_update)
  have "live r (messages_key sid) = Some (RList raw) \<and> live ?r2 (messages_key sid) = Some (RList ?ok)
        \<or> live r (messages_key sid) = None \<and> live ?r2 (messages_key sid) = None"
    using assms by (cases d; cases "clock r < the d") (simp_all add: live_update, simp_all add: live_def)
  then have log: "log_of r sid = raw \<and> log_of ?r2 sid = ?ok \<or> log_of r sid = [] \<and> log_of ?r2 sid = []"
    and m: "live r (messages_key sid) = live ?r2 (messages_key sid)
            \<or> (\<exists>xs ys. live r (messages_key sid) = Some (RList xs)
                        \<and> live ?r2 (messages_key sid) = Some (RList ys))"
    by (auto simp: log_of_def)
  have d: "decode_all u (log_of r sid) = decode_all u (log_of ?r2 sid)"
    using log by (elim disjE conjE) (simp_all only: decode_all_filter_idem)
  have same: "fst (GetHistory u W sid r) = fst (GetHistory u W sid ?r2)"
    by (rule GetHistory_fst_cong [OF _ _ m d s [symmetric]]) (simp_all add: faulty_def)
  have reach: "\<exists>ms s. fst (GetHistory u W sid r) = Ok (ms, s) \<and> suffix ms (decode_all u raw)"
    if h: "0 \<le> W \<and> quiet 2 r \<and> well_typed r sid \<and> int (length raw) < 2 ^ 63"
  proof -
    have len: "int (length (log_of r sid)) < 2 ^ 63" using log h by auto
    obtain ms t where ok: "fst (GetHistory u W sid r) = Ok (ms, t)"
      using GetHistory_quiet [of r W sid u] h len by (auto simp: Let_def split: if_splits)
    have "suffix ms (decode_all u (log_of r sid))" using GetHistory_suffix [OF ok] .
    then have "suffix ms (decode_all u raw)" using log by auto
    then show ?thesis using ok by blast
  qed
  show ?thesis
    using same reach decode_all_filter [of u raw] by simp
qed

theorem malformed_entries_dropped_witness:
  "decode_all sample_unmarshal [''user|a'', ''garbage'', ''assistant|b''] =
     [\<lparr>Role = ''user'', Content = ''a'', Time = 0\<rparr>, \<lparr>Role = ''assistant'', Content = ''b'', Time = 0\<rparr>]
   \<and> fst (GetHistory sample_unmarshal 1 ''s''
            (redis_with_log ''s'' [''user|a'', ''garbage'', ''assistant|b''])) =
       fst (GetHistory sample_unmarshal 1 ''s'' (redis_with_log ''s'' [''user|a'', ''assistant|b'']))"
  using malformed_entries_dropped [of "redis_with_log ''s'' [''user|a'', ''garbage'', ''assistant|b'']"
      "''s''" "[''user|a'', ''garbage'', ''assistant|b'']" None sample_unmarshal 1]
  by (simp add: redis_with_log_def sample_unmarshal_def messages_key_def)

subsection \<open>The long-term store\<close>

text \<open>
  Claim C8 (result shape of \<open>Store\<close>), as stated, fails: the identifier returned on
  success is the first one the indexer reports, whatever it is; the function checks that
  there is one, not that it is non-empty. With an indexer that reports the empty
  identifier (the document is handed over without one) \<open>Store\<close> succeeds with \<open>''''\<close>.
\<close>

theorem store_returns_empty_identifier:
  "Store (\<lambda>docs. Inr ['''']) ''a fact'' Map.empty = ('''', None)"
  by (simp add: Store_def)

text \<open>
  Claim C8, amended: for every content and metadata, \<open>Store\<close> either succeeds and returns
  the first identifier that the indexer reported for the one document built from them, or
  fails (the indexer failed, or it reported no identifier) and returns the error together
  with the empty identifier.
\<close>

theorem store_result_shape:
  "(case Store idx content metadata of
      (ident, None) \<Rightarrow>
        (\<exists>others. idx [\<lparr>ID = '''', DocContent = content, MetaData = metadata\<rparr>] = Inr (ident # others))
    | (ident, Some e) \<Rightarrow>
        ident = ''''
        \<and> (e = NoIdReturned \<and> idx [\<lparr>ID = '''', DocContent = content, MetaData = metadata\<rparr>] = Inr []
           \<or> (\<exists>c. e = StoreFailed c
                   \<and> idx [\<lparr>ID = '''', DocContent = content, MetaData = metadata\<rparr>] = Inl c)))"
proof (cases "idx [\<lparr>ID = '''', DocContent = content, MetaData = metadata\<rparr>]")
  case (Inl c)
  then show ?thesis by (simp add: Store_def)
next
  case (Inr ids)
  then show ?thesis by (cases ids) (simp_all add: Store_def)
qed

subsection \<open>The turn\<close>

lemma retrieve_step_failed:
  "retriever P query = Inl c \<Longrightarrow>
   retrieve_step P query =
     (if Contains query cue_remember \<or> Contains query cue_my then [Retrieving query] else [], '''')"
  by (simp add: retrieve_step_def Retrieve_def)

lemma retrieve_step_empty:
  "retrieve_step (P\<lparr>retriever := (\<lambda>q. Inr [])\<rparr>) query =
     (if Contains query cue_remember \<or> Contains query cue_my then [Retrieving query] else [], '''')"
  by (simp add: retrieve_step_def Retrieve_def)

lemma ports_ignore_retriever:
  "marshal (P\<lparr>retriever := x\<rparr>) = marshal P" "unmarshal (P\<lparr>retriever := x\<rparr>) = unmarshal P"
  "chat_invoke (P\<lparr>retriever := x\<rparr>) = chat_invoke P"
  "summary_compile (P\<lparr>retriever := x\<rparr>) = summary_compile P"
  "summary_invoke (P\<lparr>retriever := x\<rparr>) = summary_invoke P"
  "indexer (P\<lparr>retriever := x\<rparr>) = indexer P"
  by simp_all

lemma GenerateSummary_ignores_retriever:
  "GenerateSummary (P\<lparr>retriever := x\<rparr>) = GenerateSummary P"
  unfolding fun_eq_iff GenerateSummary_def ports_ignore_retriever by simp

lemma steps_ignore_retriever:
  "persist_step (P\<lparr>retriever := x\<rparr>) = persist_step P"
  "summarize_step (P\<lparr>retriever := x\<rparr>) = summarize_step P"
  "store_step (P\<lparr>retriever := x\<rparr>) = store_step P"
  unfolding fun_eq_iff persist_step_def summarize_step_def store_step_def
    ports_ignore_retriever GenerateSummary_ignores_retriever
  by simp_all

lemma turn_eq:
  "turn P W sid query r =
     (case GetHistory (unmarshal P) W sid r of
        (Panic, r1) \<Rightarrow> None
      | (Err e, r1) \<Rightarrow> Some ([HistoryFailed e], r1)
      | (Ok (recent, summary), r1) \<Rightarrow>
          (case chat_invoke P (short_term_history summary recent) (snd (retrieve_step P query)) query of
             Inl c \<Rightarrow>
               Some (fst (retrieve_step P query)
                     @ [Invoked (short_term_history summary recent) (snd (retrieve_step P query)) query,
                        GenerateFailed c], r1)
           | Inr response \<Rightarrow>
               (case summarize_step P W sid (snd (persist_step P sid query response r1)) of
                  None \<Rightarrow> None
                | Some (ev5, r3) \<Rightarrow>
                    Some (fst (retrieve_step P query)
                          @ [Invoked (short_term_history summary recent) (snd (retrieve_step P query)) query,
                             Replied response]
                          @ fst (persist_step P sid query response r1) @ ev5
                          @ store_step P sid query (clock r3), r3))))"
  by (simp add: turn_def Let_def split: prod.split result.split sum.split option.split)

text \<open>
  Claim C7 (long-term read degradation). When \<^verbatim>\<open>Retrieve\<close> fails for the query, the
  long-term context of the turn is empty and the turn as a whole (its calls, what it
  prints, the store it leaves) is the turn of a retriever that found nothing: the error
  reaches neither the caller nor the trace. In particular, when the short-term read and
  the generation succeed, the reply is generated from the empty long-term context, both
  messages are pushed and the turn goes on to the summary check and the long-term write.
\<close>

theorem retrieve_failure_degrades:
  assumes "retriever P query = Inl c"
  shows "snd (retrieve_step P query) = ''''
         \<and> turn P W sid query r = turn (P\<lparr>retriever := (\<lambda>q. Inr [])\<rparr>) W sid query r
         \<and> (GetHistory (unmarshal P) W sid r = (Ok (recent, summary), r1)
            \<and> chat_invoke P (short_term_history summary recent) '''' query = Inr response \<longrightarrow>
              turn P W sid query r =
                (case summarize_step P W sid (snd (persist_step P sid query response r1)) of
                   None \<Rightarrow> None
                 | Some (ev5, r3) \<Rightarrow>
                     Some (fst (retrieve_step P query)
                           @ [Invoked (short_term_history summary recent) '''' query, Replied response]
                           @ fst (persist_step P sid query response r1) @ ev5
                           @ store_step P sid query (clock r3), r3)))"
proof -
  have a: "retrieve_step (P\<lparr>retriever := (\<lambda>q. Inr [])\<rparr>) query = retrieve_step P query"
    using retrieve_step_failed [OF assms] by (simp add: retrieve_step_empty)
  have b: "snd (retrieve_step P query) = ''''"
    using retrieve_step_failed [OF assms] by simp
  have eq: "turn (P\<lparr>retriever := (\<lambda>q. Inr [])\<rparr>) W sid query r = turn P W sid query r"
    unfolding turn_eq a steps_ignore_retriever ports_ignore_retriever by simp
  have on: "GetHistory (unmarshal P) W sid r = (Ok (recent, summary), r1)
            \<and> chat_invoke P (short_term_history summary recent) '''' query = Inr response \<longrightarrow>
              turn P W sid query r =
                (case summarize_step P W sid (snd (persist_step P sid query response r1)) of
                   None \<Rightarrow> None
                 | Some (ev5, r3) \<Rightarrow>
                     Some (fst (retrieve_step P query)
                           @ [Invoked (short_term_history summary recent) '''' query, Replied response]
                           @ fst (persist_step P sid query response r1) @ ev5
                           @ store_step P sid query (clock r3), r3))"
    unfolding turn_eq b by simp
  show ?thesis
    using b eq [symmetric] on by (intro conjI)
qed

theorem retrieve_failure_degrades_witness:
  "snd (retrieve_step (sample_ports\<lparr>retriever := (\<lambda>q. Inl (External ''down''))\<rparr>) (cue_my @ ''x'')) = ''''
   \<and> turn (sample_ports\<lparr>retriever := (\<lambda>q. Inl (External ''down''))\<rparr>) 2 ''s'' (cue_my @ ''x'') empty_redis =
       turn (sample_ports\<lparr>retriever := (\<lambda>q. Inl (External ''down''))\<rparr>\<lparr>retriever := (\<lambda>q. Inr [])\<rparr>)
         2 ''s'' (cue_my @ ''x'') empty_redis
   \<and> turn (sample_ports\<lparr>retriever := (\<lambda>q. Inl (External ''down''))\<rparr>) 2 ''s'' (cue_my @ ''x'') empty_redis =
       Some ([Retrieving (cue_my @ ''x''), Invoked recent_header '''' (cue_my @ ''x''),
              Replied (''re:'' @ cue_my @ ''x'')],
             \<lparr>entries = [''session:s:messages'' \<mapsto>
                          (RList [''user|'' @ cue_my @ ''x'', ''assistant|re:'' @ cue_my @ ''x''], None)],
              clock = 1000, faults = []\<rparr>)"
proof -
  have h: "retriever (sample_ports\<lparr>retriever := (\<lambda>q. Inl (External ''down''))\<rparr>) (cue_my @ ''x'')
           = Inl (External ''down'')"
    by simp
  have run: "turn (sample_ports\<lparr>retriever := (\<lambda>q. Inl (External ''down''))\<rparr>) 2 ''s'' (cue_my @ ''x'')
               empty_redis =
       Some ([Retrieving (cue_my @ ''x''), Invoked recent_header '''' (cue_my @ ''x''),
              Replied (''re:'' @ cue_my @ ''x'')],
             \<lparr>entries = [''session:s:messages'' \<mapsto>
                          (RList [''user|'' @ cue_my @ ''x'', ''assistant|re:'' @ cue_my @ ''x''], None)],
              clock = 1000, faults = []\<rparr>)"
    by (simp add: run_simps)
  show ?thesis
    using retrieve_failure_degrades [OF h, of 2 "''s''" empty_redis] run by simp
qed

lemma no_store_event_before_step6:
  "filter is_store_event (fst (retrieve_step P query)) = []"
  "filter is_store_event (fst (persist_step P sid query response r)) = []"
  "summarize_step P W sid r = Some (ev, r') \<Longrightarrow> filter is_store_event ev = []"
  by (auto simp: retrieve_step_def persist_step_def summarize_step_def Let_def
           split: sum.splits prod.splits option.splits if_splits result.splits)

lemma steps_do_not_end_turn:
  "\<not> list_ex ends_turn (fst (retrieve_step P query))"
  "\<not> list_ex ends_turn (fst (persist_step P sid query response r))"
  "summarize_step P W sid r = Some (ev, r') \<Longrightarrow> \<not> list_ex ends_turn ev"
  "\<not> list_ex ends_turn (store_step P sid query now)"
  by (auto simp: retrieve_step_def persist_step_def summarize_step_def store_step_def Let_def
           split: sum.splits prod.splits option.splits if_splits result.splits)

lemma store_call_iff_event:
  "list_ex is_store_call ev \<longleftrightarrow> list_ex is_store_call (filter is_store_event ev)"
proof (induction ev)
  case Nil
  show ?case by simp
next
  case (Cons e ev)
  then show ?case by (cases e) simp_all
qed

text \<open>
  Claim C6 (conditional long-term write), as stated, fails in two ways. The content handed
  to \<open>Store\<close> is \<^verbatim>\<open>strings.TrimPrefix(query, ...)\<close> for the cue followed by a full-width
  colon: a query that starts with the cue without the colon is stored whole, cue
  included. And a turn whose generation fails ends at once (\<^verbatim>\<open>continue\<close>), before the
  long-term write: the query contains the cue and nothing is stored. Both are shown with
  an indexer that answers with what it was handed.
\<close>

theorem store_keeps_cue_and_is_skipped_on_failure:
  "prefix cue_please_remember (cue_please_remember @ ''x'')
   \<and> turn (sample_ports\<lparr>indexer := echo_indexer\<rparr>) 2 ''s'' (cue_please_remember @ ''x'') empty_redis =
       Some ([Retrieving (cue_please_remember @ ''x''),
              Invoked recent_header '''' (cue_please_remember @ ''x''),
              Replied (''re:'' @ cue_please_remember @ ''x''),
              Storing (cue_please_remember @ ''x'')
                [''session_id'' \<mapsto> MStr ''s'', ''type'' \<mapsto> MStr ''user_fact'',
                 ''timestamp'' \<mapsto> MInt 1000],
              Stored (cue_please_remember @ ''x@s'')],
             \<lparr>entries = [''session:s:messages'' \<mapsto>
                          (RList [''user|'' @ cue_please_remember @ ''x'',
                                  ''assistant|re:'' @ cue_please_remember @ ''x''], None)],
              clock = 1000, faults = []\<rparr>)
   \<and> Contains (fact_prefix @ ''y'') cue_please_remember
   \<and> turn (sample_ports\<lparr>indexer := echo_indexer,
                          chat_invoke := (\<lambda>history memory query. Inl (External ''down''))\<rparr>)
         2 ''s'' (fact_prefix @ ''y'') empty_redis =
       Some ([Retrieving (fact_prefix @ ''y''), Invoked recent_header '''' (fact_prefix @ ''y''),
              GenerateFailed (External ''down'')],
             empty_redis)"
  by (simp add: run_simps echo_indexer_def)

text \<open>
  Claim C6, amended. A turn that is ended early by a failed short-term read or a failed
  generation makes no long-term write. In every other turn the long-term \<open>Store\<close> is called
  if and only if the query contains the cue "please remember", and then once: the indexer
  is handed one document, without identifier, whose content is the query with the
  prefix "please remember" and a full-width colon removed when the query starts with it
  and the unchanged query otherwise, and whose metadata holds the session identifier
  under \<open>session_id\<close>, the kind \<open>user_fact\<close> under \<open>type\<close> and the clock under
  \<open>timestamp\<close>; what the turn reports next is the indexer's answer to exactly that
  document, whatever the indexer is.
\<close>

theorem conditional_long_term_write:
  assumes "turn P W sid query r = Some (ev, r')"
  shows "(list_ex is_store_call ev \<longleftrightarrow>
            \<not> list_ex ends_turn ev \<and> Contains query cue_please_remember)
         \<and> filter is_store_event ev =
             (if list_ex ends_turn ev \<or> \<not> Contains query cue_please_remember then []
              else (let content = (if prefix fact_prefix query
                                   then drop (length fact_prefix) query else query);
                        metadata = [''session_id'' \<mapsto> MStr sid, ''type'' \<mapsto> MStr ''user_fact'',
                                    ''timestamp'' \<mapsto> MInt (clock r')]
                    in [Storing content metadata,
                        (case indexer P [\<lparr>ID = '''', DocContent = content, MetaData = metadata\<rparr>] of
                           Inl c \<Rightarrow> StoreError (StoreFailed c)
                         | Inr [] \<Rightarrow> StoreError NoIdReturned
                         | Inr (first # others) \<Rightarrow> Stored first)]))"
proof -
  let ?content = "TrimPrefix query fact_prefix"
  let ?outcome = "\<lambda>now. (case indexer P [\<lparr>ID = '''', DocContent = ?content,
                                         MetaData = turn_metadata sid now\<rparr>] of
                           Inl c \<Rightarrow> StoreError (StoreFailed c)
                         | Inr [] \<Rightarrow> StoreError NoIdReturned
                         | Inr (first # others) \<Rightarrow> Stored first)"
  have early: "filter is_store_event ev = []" if "list_ex ends_turn ev"
    using assms that
    by (auto simp: turn_eq no_store_event_before_step6 steps_do_not_end_turn
             split: prod.splits result.splits sum.splits option.splits)
  have full: "filter is_store_event ev =
                (if Contains query cue_please_remember
                 then [Storing ?content (turn_metadata sid (clock r')), ?outcome (clock r')] else [])"
    if "\<not> list_ex ends_turn ev"
  proof -
    have "\<exists>recent summary r1 response ev5.
            ev = fst (retrieve_step P query)
                 @ [Invoked (short_term_history summary recent) (snd (retrieve_step P query)) query,
                    Replied response]
                 @ fst (persist_step P sid query response r1) @ ev5
                 @ store_step P sid query (clock r')
            \<and> summarize_step P W sid (snd (persist_step P sid query response r1)) = Some (ev5, r')"
      using assms that
      by (fastforce simp: turn_eq split: prod.splits result.splits sum.splits option.splits)
    then obtain recent summary r1 response ev5 where
      ev: "ev = fst (retrieve_step P query)
             @ [Invoked (short_term_history summary recent) (snd (retrieve_step P query)) query,
                Replied response]
             @ fst (persist_step P sid query response r1) @ ev5
             @ store_step P sid query (clock r')"
      and s5: "summarize_step P W sid (snd (persist_step P sid query response r1)) = Some (ev5, r')"
      by blast
    have before: "filter is_store_event ev = filter is_store_event (store_step P sid query (clock r'))"
      unfolding ev using no_store_event_before_step6(3) [OF s5]
      by (simp add: no_store_event_before_step6)
    show ?thesis
      unfolding before
      by (simp add: store_step_def Store_def Let_def split: sum.split list.split)
  qed
  have f: "filter is_store_event ev =
             (if list_ex ends_turn ev \<or> \<not> Contains query cue_please_remember then []
              else [Storing ?content (turn_metadata sid (clock r')), ?outcome (clock r')])"
    using early full by (cases "list_ex ends_turn ev") simp_all
  have c: "list_ex is_store_call ev \<longleftrightarrow> \<not> list_ex ends_turn ev \<and> Contains query cue_please_remember"
    unfolding store_call_iff_event [of ev] f by simp
  show ?thesis
    using c f by (simp add: Let_def TrimPrefix_def turn_metadata_def)
qed

theorem conditional_long_term_write_witness:
  "turn (sample_ports\<lparr>indexer := echo_indexer\<rparr>) 2 ''s'' (fact_prefix @ ''y'') empty_redis =
     Some ([Retrieving (fact_prefix @ ''y''), Invoked recent_header '''' (fact_prefix @ ''y''),
            Replied (''re:'' @ fact_prefix @ ''y''),
            Storing ''y'' [''session_id'' \<mapsto> MStr ''s'', ''type'' \<mapsto> MStr ''user_fact'',
                           ''timestamp'' \<mapsto> MInt 1000],
            Stored ''y@s''],
           \<lparr>entries = [''session:s:messages'' \<mapsto>
                         (RList [''user|'' @ fact_prefix @ ''y'', ''assistant|re:'' @ fact_prefix @ ''y''], None)],
            clock = 1000, faults = []\<rparr>)
   \<and> Contains (fact_prefix @ ''y'') cue_please_remember
   \<and> indexer (sample_ports\<lparr>indexer := echo_indexer\<rparr>)
         [\<lparr>ID = '''', DocContent = ''y'',
           MetaData = [''session_id'' \<mapsto> MStr ''s'', ''type'' \<mapsto> MStr ''user_fact'',
                       ''timestamp'' \<mapsto> MInt 1000]\<rparr>] = Inr [''y@s'']"
proof -
  let ?ev = "[Retrieving (fact_prefix @ ''y''), Invoked recent_header '''' (fact_prefix @ ''y''),
            Replied (''re:'' @ fact_prefix @ ''y''),
            Storing ''y'' [''session_id'' \<mapsto> MStr ''s'', ''type'' \<mapsto> MStr ''user_fact'',
                           ''timestamp'' \<mapsto> MInt 1000],
            Stored ''y@s'']"
  let ?r = "\<lparr>entries = [''session:s:messages'' \<mapsto>
                         (RList [''user|'' @ fact_prefix @ ''y'', ''assistant|re:'' @ fact_prefix @ ''y''], None)],
            clock = 1000, faults = []\<rparr>"
  have h: "turn (sample_ports\<lparr>indexer := echo_indexer\<rparr>) 2 ''s'' (fact_prefix @ ''y'') empty_redis
           = Some (?ev, ?r)"
    by (simp add: run_simps echo_indexer_def)
  have cue: "Contains (fact_prefix @ ''y'') cue_please_remember"
    by (simp add: fact_prefix_def cue_please_remember_def)
  have idx: "indexer (sample_ports\<lparr>indexer := echo_indexer\<rparr>)
         [\<lparr>ID = '''', DocContent = ''y'',
           MetaData = [''session_id'' \<mapsto> MStr ''s'', ''type'' \<mapsto> MStr ''user_fact'',
                       ''timestamp'' \<mapsto> MInt 1000]\<rparr>] = Inr [''y@s'']"
    by (simp add: echo_indexer_def)
  show ?thesis
    using conditional_long_term_write [OF h] h cue idx by simp
qed

subsection \<open>The summarization trigger\<close>

lemma GetHistory_rounds_bounded:
  assumes "0 \<le> W" and "int (length (log_of r sid)) < 2 ^ 63"
  shows "case fst (GetHistory u W sid r) of
           Ok (ms, s) \<Rightarrow> int (length ms) div 2 \<le> W | Err e \<Rightarrow> True | Panic \<Rightarrow> False"
proof -
  let ?all = "decode_all u (log_of r sid)"
  have len: "int (length ?all) < 2 ^ 63"
    using length_decode_all [of u "log_of r sid"] assms(2) by linarith
  have "length (last_n (2 * nat W) ?all) = 2 * nat W" if "\<not> int (length ?all) div 2 \<le> W"
    using that assms(1) by (simp add: last_n_def)
  then show ?thesis
    using slice_from_window [OF assms(1) len] assms(1)
    by (auto simp: GetHistory_fst Let_def split: option.split rval.split)
qed

text \<open>
  Step 5 of the loop body never generates a summary: it decides on the messages that
  \<open>GetHistory\<close> returns, which that function has already cut to the window.
\<close>

lemma summarize_step_idle:
  assumes "0 \<le> W" and "int (length (log_of r sid)) < 2 ^ 63"
  shows "summarize_step P W sid r = Some ([], snd (GetHistory (unmarshal P) W sid r))"
  using GetHistory_rounds_bounded [OF assms, of "unmarshal P"] assms(1)
  by (cases "GetHistory (unmarshal P) W sid r"; cases "fst (GetHistory (unmarshal P) W sid r)")
     (auto simp: summarize_step_def Let_def)

text \<open>
  Claim C1 (summarization trigger) does not hold of the code. The loop body means to
  summarise: after the two pushes it reads the history again, counts its rounds and calls
  \<open>GenerateSummary\<close> on the messages before the last \<open>2 * W\<close> when there are more than
  \<open>W\<close> rounds. But what it counts is the result of \<open>GetHistory\<close>, never more than \<open>W\<close>
  complete rounds, so the test is false on every turn (\<open>summarize_step_idle\<close>). With
  \<open>W = 2\<close>, a fresh session and components that all succeed (the summary chain would
  answer \<open>S\<close>), three turns leave six messages in the log, no call of
  \<open>GenerateSummary\<close> in the trace and no summary in the store, and the read after the
  third round returns the last two rounds with the empty summary.
\<close>

theorem no_summary_after_third_round:
  "(case run_turns sample_ports 2 ''s'' [''q1'', ''q2'', ''q3''] empty_redis of
      None \<Rightarrow> False
    | Some (ev, r) \<Rightarrow>
        \<not> list_ex is_summarizing ev
        \<and> length (decode_all sample_unmarshal (log_of r ''s'')) = 6
        \<and> summary_of r ''s'' = None
        \<and> fst (GetHistory sample_unmarshal 2 ''s'' r) =
            Ok ([\<lparr>Role = ''user'', Content = ''q2'', Time = 0\<rparr>,
                 \<lparr>Role = ''assistant'', Content = ''re:q2'', Time = 0\<rparr>,
                 \<lparr>Role = ''user'', Content = ''q3'', Time = 0\<rparr>,
                 \<lparr>Role = ''assistant'', Content = ''re:q3'', Time = 0\<rparr>], ''''))"
proof -
  have run: "run_turns sample_ports 2 ''s'' [''q1'', ''q2'', ''q3''] empty_redis =
     Some ([Invoked recent_header '''' ''q1'', Replied ''re:q1'',
            Invoked (recent_header @ ''user: q1'' @ [CHR 0x0A] @ ''assistant: re:q1'' @ [CHR 0x0A]) '''' ''q2'',
            Replied ''re:q2'',
            Invoked (recent_header @ ''user: q1'' @ [CHR 0x0A] @ ''assistant: re:q1'' @ [CHR 0x0A]
                     @ ''user: q2'' @ [CHR 0x0A] @ ''assistant: re:q2'' @ [CHR 0x0A]) '''' ''q3'',
            Replied ''re:q3''],
       \<lparr>entries = [''session:s:messages'' \<mapsto>
          (RList [''user|q1'', ''assistant|re:q1'', ''user|q2'', ''assistant|re:q2'',
                  ''user|q3'', ''assistant|re:q3''], None)],
        clock = 1000, faults = []\<rparr>)"
    by (simp add: run_simps)
  show ?thesis
    unfolding run
    by (simp add: GetHistory_def LRange_def Get_def next_fault_def slice_from_def wrap64_def
          log_of_def summary_of_def live_def messages_key_def summary_key_def sample_unmarshal_def)
qed

subsection \<open>No expiry of session content\<close>

lemma key_kinds_differ:
  "messages_key a \<noteq> summary_key b" "summary_key b \<noteq> messages_key a"
  "messages_key a \<noteq> access_key b" "access_key b \<noteq> messages_key a"
  "summary_key a \<noteq> access_key b" "access_key b \<noteq> summary_key a"
proof -
  have ms: "a @ '':messages'' \<noteq> b @ '':summary''" for a b :: string
  proof
    assume "a @ '':messages'' = b @ '':summary''"
    then have "rev (a @ '':messages'') = rev (b @ '':summary'')" by simp
    then show False by simp
  qed
  have ma: "a @ '':messages'' \<noteq> b @ '':last_access''" for a b :: string
  proof
    assume "a @ '':messages'' = b @ '':last_access''"
    then have "rev (a @ '':messages'') = rev (b @ '':last_access'')" by simp
    then show False by simp
  qed
  have sa: "a @ '':summary'' \<noteq> b @ '':last_access''" for a b :: string
  proof
    assume "a @ '':summary'' = b @ '':last_access''"
    then have "rev (a @ '':summary'') = rev (b @ '':last_access'')" by simp
    then show False by simp
  qed
  show "messages_key a \<noteq> summary_key b" "summary_key b \<noteq> messages_key a"
    "messages_key a \<noteq> access_key b" "access_key b \<noteq> messages_key a"
    "summary_key a \<noteq> access_key b" "access_key b \<noteq> summary_key a"
    using ms [of a b] ma [of a b] sa [of a b]
    by (auto simp: messages_key_def summary_key_def access_key_def)
qed

lemma key_inj [simp]:
  "messages_key a = messages_key b \<longleftrightarrow> a = b"
  "summary_key a = summary_key b \<longleftrightarrow> a = b"
  "access_key a = access_key b \<longleftrightarrow> a = b"
  by (simp_all add: messages_key_def summary_key_def access_key_def)


lemma RPush_eq:
  "RPush r k v =
     (if faulty r then (Inl Unreachable, r\<lparr>faults := tl (faults r)\<rparr>)
      else case live r k of
             None \<Rightarrow> (Inr (), r\<lparr>faults := tl (faults r), entries := (entries r)(k \<mapsto> (RList [v], None))\<rparr>)
           | Some (RList xs) \<Rightarrow>
               (Inr (), r\<lparr>faults := tl (faults r),
                         entries := (entries r)(k \<mapsto> (RList (xs @ [v]), snd (the (entries r k))))\<rparr>)
           | Some (RStr s) \<Rightarrow> (Inl WrongType, r\<lparr>faults := tl (faults r)\<rparr>))"
  by (simp add: RPush_def next_fault_eq split: option.split rval.split)

lemma AddMessage_effect:
  "entries (snd (AddMessage m sid role content r)) k = entries r k
   \<or> k = messages_key sid
     \<and> ((\<exists>v. live r k = None
               \<and> entries (snd (AddMessage m sid role content r)) k = Some (RList [v], None))
        \<or> (\<exists>xs v. live r k = Some (RList xs)
               \<and> entries (snd (AddMessage m sid role content r)) k =
                   Some (RList (xs @ [v]), snd (the (entries r k)))))"
  by (auto simp: AddMessage_def RPush_eq Let_def split: sum.split option.split rval.split)

lemma SaveSummary_effect:
  "clock (snd (SaveSummary sid t r)) = clock r
   \<and> (entries (snd (SaveSummary sid t r)) = entries r
      \<or> entries (snd (SaveSummary sid t r)) = (entries r)(summary_key sid \<mapsto> (RStr t, None)))"
  by (simp add: SaveSummary_def Set_eq)

lemma UpdateLastAccessTime_eq:
  "UpdateLastAccessTime sid r =
     (if faulty r then (Inl (TouchFailed Unreachable), r\<lparr>faults := tl (faults r)\<rparr>)
      else (Inr (), r\<lparr>faults := tl (faults r),
                      entries := (entries r)
                        (access_key sid \<mapsto> (RStr (FormatInt (clock r)), Some (clock r + 2592000)))\<rparr>))"
  by (simp add: UpdateLastAccessTime_def Set_eq)

lemma GetLastAccessTime_snd:
  "entries (snd (GetLastAccessTime sid r)) = entries r"
  by (simp add: GetLastAccessTime_def Get_eq split: sum.split option.split)

lemma session_kept:
  assumes nd: "no_deadline r sid"
    and s: "entries r' (summary_key sid) = entries r (summary_key sid)
            \<or> (\<exists>t. entries r' (summary_key sid) = Some (RStr t, None))"
    and m: "entries r' (messages_key sid) = entries r (messages_key sid)
            \<or> (\<exists>v. live r (messages_key sid) = None
                    \<and> entries r' (messages_key sid) = Some (RList [v], None))
            \<or> (\<exists>xs v. live r (messages_key sid) = Some (RList xs)
                    \<and> entries r' (messages_key sid) =
                        Some (RList (xs @ [v]), snd (the (entries r (messages_key sid)))))"
  shows "no_deadline r' sid \<and> prefix (log_of r sid) (log_of r' sid)
         \<and> (summary_of r sid \<noteq> None \<longrightarrow> summary_of r' sid \<noteq> None)"
proof -
  have lm: "live r (messages_key sid) = map_option fst (entries r (messages_key sid))"
    and ls: "live r (summary_key sid) = map_option fst (entries r (summary_key sid))"
    using nd by (auto simp: no_deadline_def live_def split: option.splits)
  have nd': "no_deadline r' sid"
    using nd s m lm by (auto simp: no_deadline_def split: option.splits)
  have lm': "live r' (messages_key sid) = map_option fst (entries r' (messages_key sid))"
    and ls': "live r' (summary_key sid) = map_option fst (entries r' (summary_key sid))"
    using nd' by (auto simp: no_deadline_def live_def split: option.splits)
  have "prefix (log_of r sid) (log_of r' sid)"
    using m by (auto simp: log_of_def lm lm' split: option.splits rval.splits)
  moreover have "summary_of r sid \<noteq> None \<longrightarrow> summary_of r' sid \<noteq> None"
    using s by (auto simp: summary_of_def ls ls' split: option.splits rval.splits)
  ultimately show ?thesis using nd' by simp
qed


lemma apply_op_keeps:
  assumes "no_deadline r sid" and "op \<noteq> OpClearHistory sid"
  shows "no_deadline (apply_op m u W op r) sid
         \<and> prefix (log_of r sid) (log_of (apply_op m u W op r) sid)
         \<and> (summary_of r sid \<noteq> None \<longrightarrow> summary_of (apply_op m u W op r) sid \<noteq> None)"
proof (cases op)
  case (OpAddMessage sid' role content)
  show ?thesis
    unfolding OpAddMessage apply_op.simps
    using AddMessage_effect [of m sid' role content r "messages_key sid"]
      AddMessage_effect [of m sid' role content r "summary_key sid"]
    by (intro session_kept [OF assms(1)]) (simp_all add: key_kinds_differ, blast)
next
  case (OpGetHistory sid')
  show ?thesis
    unfolding OpGetHistory apply_op.simps
    using GetHistory_snd [of u W sid' r]
    by (intro session_kept [OF assms(1)]) auto
next
  case (OpSaveSummary sid' t)
  show ?thesis
    unfolding OpSaveSummary apply_op.simps
    using SaveSummary_effect [of sid' t r]
    by (intro session_kept [OF assms(1)]) (auto simp: key_kinds_differ)
next
  case (OpClearHistory sid')
  then have "sid' \<noteq> sid" using assms(2) by simp
  then show ?thesis
    unfolding OpClearHistory apply_op.simps
    by (intro session_kept [OF assms(1)]) (auto simp: ClearHistory_eq key_kinds_differ)
next
  case (OpUpdateLastAccessTime sid')
  show ?thesis
    unfolding OpUpdateLastAccessTime apply_op.simps
    by (intro session_kept [OF assms(1)]) (auto simp: UpdateLastAccessTime_eq key_kinds_differ)
next
  case (OpGetLastAccessTime sid')
  show ?thesis
    unfolding OpGetLastAccessTime apply_op.simps
    using GetLastAccessTime_snd [of sid' r]
    by (intro session_kept [OF assms(1)]) auto
next
  case (OpElapse d)
  show ?thesis
    unfolding OpElapse apply_op.simps
    by (intro session_kept [OF assms(1)]) (auto simp: advance_def)
qed

lemma run_ops_keeps:
  assumes "no_deadline r sid" and "OpClearHistory sid \<notin> set ops"
  shows "no_deadline (run_ops m u W ops r) sid
         \<and> prefix (log_of r sid) (log_of (run_ops m u W ops r) sid)
         \<and> (summary_of r sid \<noteq> None \<longrightarrow> summary_of (run_ops m u W ops r) sid \<noteq> None)"
  using assms
proof (induction ops arbitrary: r)
  case Nil
  then show ?case by simp
next
  case (Cons op ops)
  have op: "op \<noteq> OpClearHistory sid" and rest: "OpClearHistory sid \<notin> set ops"
    using Cons.prems(2) by auto
  note step = apply_op_keeps [OF Cons.prems(1) op, of m u W]
  note tail = Cons.IH [OF conjunct1 [OF step] rest]
  show ?case
    using step tail by (auto intro: prefix_order.trans)
qed

lemma access_time_expires:
  assumes "\<not> faulty r" and "no_deadline r sid" and "2592000 \<le> d"
  shows "entries (snd (UpdateLastAccessTime sid r)) (access_key sid) =
           Some (RStr (FormatInt (clock r)), Some (clock r + 2592000))"
    and "\<not> faulty (advance d (snd (UpdateLastAccessTime sid r))) \<Longrightarrow>
           fst (GetLastAccessTime sid (advance d (snd (UpdateLastAccessTime sid r)))) = Inr 0"
    and "log_of (advance d (snd (UpdateLastAccessTime sid r))) sid = log_of r sid"
    and "summary_of (advance d (snd (UpdateLastAccessTime sid r))) sid = summary_of r sid"
proof -
  let ?r1 = "snd (UpdateLastAccessTime sid r)"
  show e: "entries ?r1 (access_key sid) = Some (RStr (FormatInt (clock r)), Some (clock r + 2592000))"
    using assms(1) by (simp add: UpdateLastAccessTime_eq)
  have c: "clock (advance d ?r1) = clock r + d" "entries (advance d ?r1) = entries ?r1"
    using assms(1) by (simp_all add: UpdateLastAccessTime_eq advance_def)
  have "live (advance d ?r1) (access_key sid) = None"
    using assms(3) by (simp add: live_def c e)
  then show "\<not> faulty (advance d ?r1) \<Longrightarrow> fst (GetLastAccessTime sid (advance d ?r1)) = Inr 0"
    by (simp add: GetLastAccessTime_fst)
  have m: "entries (advance d ?r1) (messages_key sid) = entries r (messages_key sid)"
    and s: "entries (advance d ?r1) (summary_key sid) = entries r (summary_key sid)"
    using assms(1) by (simp_all add: advance_def UpdateLastAccessTime_eq)
  have lm: "live (advance d ?r1) (messages_key sid) = live r (messages_key sid)"
    and ls: "live (advance d ?r1) (summary_key sid) = live r (summary_key sid)"
    using assms(2) by (auto simp: live_def m s no_deadline_def split: option.splits)
  show "log_of (advance d ?r1) sid = log_of r sid" by (simp add: log_of_def lm)
  show "summary_of (advance d ?r1) sid = summary_of r sid" by (simp add: summary_of_def ls)
qed

lemma writes_without_deadline:
  assumes "no_deadline r sid"
  shows "fst (AddMessage m sid role content r) = Inr () \<longrightarrow>
           (\<exists>xs. entries (snd (AddMessage m sid role content r)) (messages_key sid) = Some (RList xs, None))"
    and "fst (SaveSummary sid t r) = Inr () \<longrightarrow>
           entries (snd (SaveSummary sid t r)) (summary_key sid) = Some (RStr t, None)"
proof -
  have "snd (the (entries r (messages_key sid))) = None" if "live r (messages_key sid) = Some v" for v
    using that assms by (auto simp: no_deadline_def live_def split: option.splits if_splits)
  then show "fst (AddMessage m sid role content r) = Inr () \<longrightarrow>
           (\<exists>xs. entries (snd (AddMessage m sid role content r)) (messages_key sid) = Some (RList xs, None))"
    by (auto simp: AddMessage_def RPush_eq Let_def split: sum.split option.split rval.split)
  show "fst (SaveSummary sid t r) = Inr () \<longrightarrow>
           entries (snd (SaveSummary sid t r)) (summary_key sid) = Some (RStr t, None)"
    by (simp add: SaveSummary_def Set_eq)
qed

text \<open>
  Claim C10 (no self-expiry of session data). Take a session whose message log and
  summary carry no deadline (as in the empty store). No sequence of operations of the
  short-term store, on this or any other session and with any amount of time passing in
  between, attaches one: \<open>AddMessage\<close> leaves the list without deadline and
  \<open>SaveSummary\<close> stores the summary without deadline. So unless the sequence contains
  \<open>ClearHistory\<close> of this session, its log only grows and its summary, once there, stays.
  \<open>UpdateLastAccessTime\<close> writes the last-access key with a deadline 2592000 seconds (30
  days) ahead; once that time has passed \<open>GetLastAccessTime\<close> reports \<open>0\<close>, while the log
  and the summary are what they were.
\<close>

theorem no_self_expiry:
  assumes "no_deadline r sid" and "OpClearHistory sid \<notin> set ops"
  shows "no_deadline (run_ops m u W ops r) sid
         \<and> prefix (log_of r sid) (log_of (run_ops m u W ops r) sid)
         \<and> (summary_of r sid \<noteq> None \<longrightarrow> summary_of (run_ops m u W ops r) sid \<noteq> None)
         \<and> (fst (AddMessage m sid role content r) = Inr () \<longrightarrow>
              (\<exists>xs. entries (snd (AddMessage m sid role content r)) (messages_key sid) = Some (RList xs, None)))
         \<and> (fst (SaveSummary sid t r) = Inr () \<longrightarrow>
              entries (snd (SaveSummary sid t r)) (summary_key sid) = Some (RStr t, None))
         \<and> (\<not> faulty r \<longrightarrow>
              entries (snd (UpdateLastAccessTime sid r)) (access_key sid) =
                Some (RStr (FormatInt (clock r)), Some (clock r + 2592000))
              \<and> (\<forall>d\<ge>2592000.
                    (\<not> faulty (advance d (snd (UpdateLastAccessTime sid r))) \<longrightarrow>
                       fst (GetLastAccessTime sid (advance d (snd (UpdateLastAccessTime sid r)))) = Inr 0)
                    \<and> log_of (advance d (snd (UpdateLastAccessTime sid r))) sid = log_of r sid
                    \<and> summary_of (advance d (snd (UpdateLastAccessTime sid r))) sid = summary_of r sid))"
  using run_ops_keeps [OF assms, of m u W] writes_without_deadline(1) [OF assms(1), of m role content]
    writes_without_deadline(2) [OF assms(1), of t] access_time_expires(1) [OF _ assms(1) order_refl]
    access_time_expires(2-4) [OF _ assms(1)]
  by auto

theorem no_self_expiry_witness:
  "log_of (run_ops sample_marshal sample_unmarshal 2
             [OpAddMessage ''s'' ''user'' ''a'', OpSaveSummary ''s'' ''S'', OpUpdateLastAccessTime ''s'',
              OpElapse 2592000, OpGetLastAccessTime ''s'', OpAddMessage ''s'' ''assistant'' ''b'']
             empty_redis) ''s'' = [''user|a'', ''assistant|b'']
   \<and> summary_of (run_ops sample_marshal sample_unmarshal 2
             [OpAddMessage ''s'' ''user'' ''a'', OpSaveSummary ''s'' ''S'', OpUpdateLastAccessTime ''s'',
              OpElapse 2592000, OpGetLastAccessTime ''s'', OpAddMessage ''s'' ''assistant'' ''b'']
             empty_redis) ''s'' = Some ''S''
   \<and> fst (GetLastAccessTime ''s'' (advance 2592000 (snd (UpdateLastAccessTime ''s'' empty_redis)))) = Inr 0"
proof -
  have h1: "no_deadline empty_redis ''s''" by (simp add: no_deadline_def empty_redis_def)
  have h2: "OpClearHistory ''s'' \<notin> set [OpAddMessage ''s'' ''user'' ''a'', OpSaveSummary ''s'' ''S'',
              OpUpdateLastAccessTime ''s'', OpElapse 2592000, OpGetLastAccessTime ''s'',
              OpAddMessage ''s'' ''assistant'' ''b'']" by simp
  have run: "log_of (run_ops sample_marshal sample_unmarshal 2
             [OpAddMessage ''s'' ''user'' ''a'', OpSaveSummary ''s'' ''S'', OpUpdateLastAccessTime ''s'',
              OpElapse 2592000, OpGetLastAccessTime ''s'', OpAddMessage ''s'' ''assistant'' ''b'']
             empty_redis) ''s'' = [''user|a'', ''assistant|b'']
     \<and> summary_of (run_ops sample_marshal sample_unmarshal 2
             [OpAddMessage ''s'' ''user'' ''a'', OpSaveSummary ''s'' ''S'', OpUpdateLastAccessTime ''s'',
              OpElapse 2592000, OpGetLastAccessTime ''s'', OpAddMessage ''s'' ''assistant'' ''b'']
             empty_redis) ''s'' = Some ''S''"
    by (simp add: AddMessage_def SaveSummary_def UpdateLastAccessTime_def GetLastAccessTime_def
          RPush_def Set_def Get_def next_fault_def advance_def live_def log_of_def summary_of_def
          messages_key_def summary_key_def access_key_def sample_marshal_def empty_redis_def)
  have f: "\<not> faulty empty_redis"
    "\<not> faulty (advance 2592000 (snd (UpdateLastAccessTime ''s'' empty_redis)))"
    by (simp_all add: faulty_def empty_redis_def advance_def UpdateLastAccessTime_eq)
  show ?thesis
    using no_self_expiry [OF h1 h2, of sample_marshal sample_unmarshal 2] run f by simp
qed

end
